theory Spec2Isabelle
  imports Main "HOL-Library.Word" "HOL-Library.Multiset" "HOL-Library.Sublist" "HOL-Library.AList"
begin

unbundle bit_operations_syntax

section \<open>Data model\<close>

text \<open>
  The scan, classify and aggregate core of fileAutoArrange (src/src/fileScanner.js, classes
  FileScanner and FileClassifier) together with the shipped policy config/classification.json.

  Strings are byte lists; the Chinese labels of the configuration are written as their UTF-8
  bytes. Timestamps are the millisecond values that JavaScript compares when two Date objects
  meet under \<open>>=\<close> or \<open>-\<close>; sizes are byte counts. A JavaScript field that may be
  undefined is an option, and a string counts as falsy when it is undefined or empty.
\<close>

definition OTHER :: string where \<comment> \<open>the category name of "other files"\<close>
  "OTHER = [CHR 0xE5, CHR 0x85, CHR 0xB6, CHR 0xE4, CHR 0xBB, CHR 0x96, CHR 0xE7, CHR 0xB1, CHR 0xBB]"

definition DOCUMENTS :: string where
  "DOCUMENTS = [CHR 0xE6, CHR 0x96, CHR 0x87, CHR 0xE6, CHR 0xA1, CHR 0xA3, CHR 0xE7, CHR 0xB1, CHR 0xBB]"

definition IMAGES :: string where
  "IMAGES = [CHR 0xE5, CHR 0x9B, CHR 0xBE, CHR 0xE7, CHR 0x89, CHR 0x87, CHR 0xE7, CHR 0xB1, CHR 0xBB]"

definition VIDEOS :: string where
  "VIDEOS = [CHR 0xE8, CHR 0xA7, CHR 0x86, CHR 0xE9, CHR 0xA2, CHR 0x91, CHR 0xE7, CHR 0xB1, CHR 0xBB]"

definition AUDIO :: string where
  "AUDIO = [CHR 0xE9, CHR 0x9F, CHR 0xB3, CHR 0xE9, CHR 0xA2, CHR 0x91, CHR 0xE7, CHR 0xB1, CHR 0xBB]"

definition PROGRAMS :: string where
  "PROGRAMS = [CHR 0xE7, CHR 0xA8, CHR 0x8B, CHR 0xE5, CHR 0xBA, CHR 0x8F, CHR 0xE7, CHR 0xB1, CHR 0xBB]"

definition ARCHIVES :: string where
  "ARCHIVES = [CHR 0xE5, CHR 0x8E, CHR 0x8B, CHR 0xE7, CHR 0xBC, CHR 0xA9, CHR 0xE5, CHR 0x8C, CHR 0x85]"

definition CODE :: string where
  "CODE = [CHR 0xE4, CHR 0xBB, CHR 0xA3, CHR 0xE7, CHR 0xA0, CHR 0x81, CHR 0xE7, CHR 0xB1, CHR 0xBB]"

definition DATABASES :: string where
  "DATABASES = [CHR 0xE6, CHR 0x95, CHR 0xB0, CHR 0xE6, CHR 0x8D, CHR 0xAE, CHR 0xE5, CHR 0xBA, CHR 0x93]"

definition SPREADSHEETS :: string where
  "SPREADSHEETS = [CHR 0xE7, CHR 0x94, CHR 0xB5, CHR 0xE5, CHR 0xAD, CHR 0x90, CHR 0xE8, CHR 0xA1, CHR 0xA8,
                   CHR 0xE6, CHR 0xA0, CHR 0xBC]"

definition PRESENTATIONS :: string where
  "PRESENTATIONS = [CHR 0xE6, CHR 0xBC, CHR 0x94, CHR 0xE7, CHR 0xA4, CHR 0xBA, CHR 0xE6, CHR 0x96, CHR 0x87,
                    CHR 0xE7, CHR 0xA8, CHR 0xBF]"

definition TINY :: string where \<comment> \<open>size bucket 0 .. 1024\<close>
  "TINY = [CHR 0xE5, CHR 0xBE, CHR 0xAE, CHR 0xE5, CHR 0xB0, CHR 0x8F]"

definition SMALL :: string where \<comment> \<open>size bucket 1024 .. 1048576\<close>
  "SMALL = [CHR 0xE5, CHR 0xB0, CHR 0x8F]"

definition MEDIUM :: string where \<comment> \<open>size bucket 1048576 .. 104857600\<close>
  "MEDIUM = [CHR 0xE4, CHR 0xB8, CHR 0xAD]"

definition LARGE :: string where \<comment> \<open>size bucket 104857600 .. 1073741824\<close>
  "LARGE = [CHR 0xE5, CHR 0xA4, CHR 0xA7]"

definition HUGE :: string where \<comment> \<open>size bucket from 1073741824\<close>
  "HUGE = [CHR 0xE5, CHR 0xB7, CHR 0xA8, CHR 0xE5, CHR 0xA4, CHR 0xA7]"

definition UNKNOWN :: string where \<comment> \<open>the label used when no bucket matches or a label is missing\<close>
  "UNKNOWN = [CHR 0xE6, CHR 0x9C, CHR 0xAA, CHR 0xE7, CHR 0x9F, CHR 0xA5]"

definition TODAY :: string where \<comment> \<open>relative age: created today\<close>
  "TODAY = [CHR 0xE4, CHR 0xBB, CHR 0x8A, CHR 0xE5, CHR 0xA4, CHR 0xA9]"

definition YESTERDAY :: string where
  "YESTERDAY = [CHR 0xE6, CHR 0x98, CHR 0xA8, CHR 0xE5, CHR 0xA4, CHR 0xA9]"

definition DAYS_AGO :: string where \<comment> \<open>the suffix of "n days ago"\<close>
  "DAYS_AGO = [CHR 0xE5, CHR 0xA4, CHR 0xA9, CHR 0xE5, CHR 0x89, CHR 0x8D]"

definition WEEKS_AGO :: string where
  "WEEKS_AGO = [CHR 0xE5, CHR 0x91, CHR 0xA8, CHR 0xE5, CHR 0x89, CHR 0x8D]"

definition MONTHS_AGO :: string where
  "MONTHS_AGO = [CHR 0xE6, CHR 0x9C, CHR 0x88, CHR 0xE5, CHR 0x89, CHR 0x8D]"

definition NO_EXTENSION :: string where \<comment> \<open>the statistics key of the records without extension\<close>
  "NO_EXTENSION = [CHR 0xE6, CHR 0x97, CHR 0xA0, CHR 0xE6, CHR 0x89, CHR 0xA9, CHR 0xE5, CHR 0xB1, CHR 0x95,
                   CHR 0xE5, CHR 0x90, CHR 0x8D]"

text \<open>
  One entry of \<open>fileCategories\<close>. Only \<open>extensions\<close> is read by the classifier; it is
  \<open>None\<close> when the configuration entry has no such field. The display attributes
  (colour, description) are left out.
\<close>

record categoryConfig =
  extensions :: "string list option"

text \<open>One entry of \<open>sizeCategories\<close>: the fields \<open>min\<close> and \<open>max\<close>.\<close>

record sizeRange =
  range_min :: int
  range_max :: int

text \<open>
  The parsed classification.json. An object is the list of its own properties in the order
  the file declares them, each name once; the code walks it with \<open>Object.entries\<close> and
  \<open>Object.keys\<close> (\<open>objectEntries\<close> below).
\<close>

record config =
  fileCategories :: "(string \<times> categoryConfig) list"
  sizeCategories :: "(string \<times> sizeRange) list"
  excludePaths :: "string list"
  scanPaths :: "string list"

text \<open>
  A file record: the entry built by \<open>listDirectory\<close> and enriched by
  \<open>getDetailedFileInfo\<close>. The fields no modelled function reads (name, accessedTime,
  mimeType, isExecutable, isArchive, isMedia) are left out.
\<close>

record FileRecord =
  path :: string
  extension :: "string option"
  fsize :: int
  createdTime :: int
  modifiedTime :: int
  isFile :: bool
  isDirectory :: bool
  hash :: "string option"
  category :: "string option"
  sizeCategory :: "string option"
  relativeAge :: "string option"

definition truthy :: "string option \<Rightarrow> bool" where
  "truthy s = (case s of None \<Rightarrow> False | Some v \<Rightarrow> v \<noteq> [])"

datatype error = TypeError | IOError

section \<open>The shipped policy\<close>

definition cat :: "string list \<Rightarrow> categoryConfig" where
  "cat es = \<lparr>extensions = Some es\<rparr>"

definition shippedFileCategories :: "(string \<times> categoryConfig) list" where
  "shippedFileCategories =
    [(DOCUMENTS, cat [''.pdf'', ''.doc'', ''.docx'', ''.txt'', ''.rtf'', ''.md'', ''.odt'', ''.pages'']),
     (IMAGES, cat [''.jpg'', ''.jpeg'', ''.png'', ''.gif'', ''.bmp'', ''.svg'', ''.tiff'', ''.ico'', ''.webp'']),
     (VIDEOS, cat [''.mp4'', ''.avi'', ''.mkv'', ''.mov'', ''.wmv'', ''.flv'', ''.webm'', ''.m4v'']),
     (AUDIO, cat [''.mp3'', ''.wav'', ''.flac'', ''.aac'', ''.wma'', ''.ogg'', ''.m4a'']),
     (PROGRAMS, cat [''.exe'', ''.msi'', ''.dmg'', ''.deb'', ''.rpm'', ''.app'', ''.apk'']),
     (ARCHIVES, cat [''.zip'', ''.rar'', ''.7z'', ''.tar'', ''.gz'', ''.bz2'', ''.xz'']),
     (CODE, cat [''.js'', ''.py'', ''.java'', ''.cpp'', ''.c'', ''.cs'', ''.php'', ''.html'', ''.css'',
                 ''.json'', ''.xml'']),
     (DATABASES, cat [''.db'', ''.sqlite'', ''.mdb'', ''.accdb'', ''.sql'']),
     (SPREADSHEETS, cat [''.xlsx'', ''.xls'', ''.csv'', ''.ods'']),
     (PRESENTATIONS, cat [''.pptx'', ''.ppt'', ''.odp'', ''.key'']),
     (OTHER, cat [])]"

definition shippedSizeCategories :: "(string \<times> sizeRange) list" where
  "shippedSizeCategories =
    [(TINY, \<lparr>range_min = 0, range_max = 1024\<rparr>),
     (SMALL, \<lparr>range_min = 1024, range_max = 1048576\<rparr>),
     (MEDIUM, \<lparr>range_min = 1048576, range_max = 104857600\<rparr>),
     (LARGE, \<lparr>range_min = 104857600, range_max = 1073741824\<rparr>),
     (HUGE, \<lparr>range_min = 1073741824, range_max = -1\<rparr>)]"

definition bs :: string where \<comment> \<open>the path separator of the configured paths, a backslash\<close>
  "bs = [CHR 0x5C]"

definition users :: "string \<Rightarrow> string" where
  "users d = ''C:'' @ bs @ ''Users'' @ bs @ ''%USERNAME%'' @ bs @ d"

definition shippedConfig :: config where
  "shippedConfig =
    \<lparr>fileCategories = shippedFileCategories,
     sizeCategories = shippedSizeCategories,
     excludePaths = [''C:'' @ bs @ ''Windows'' @ bs, ''C:'' @ bs @ ''Program Files'' @ bs,
                     ''C:'' @ bs @ ''Program Files (x86)'' @ bs, ''C:'' @ bs @ ''ProgramData'' @ bs,
                     ''$Recycle.Bin'', ''System Volume Information''],
     scanPaths = [users ''Desktop'', users ''Downloads'', users ''Documents'', users ''Pictures'',
                  users ''Videos'', users ''Music'', ''E:'' @ bs @ ''wc'', ''F:'' @ bs,
                  ''E:'' @ bs @ ''Downloads'']\<rparr>"

section \<open>JavaScript helpers\<close>

text \<open>\<open>String.prototype.includes\<close>: the pattern occurs somewhere in the string.\<close>

fun str_includes :: "string \<Rightarrow> string \<Rightarrow> bool" where
  "str_includes [] pat = (pat = [])"
| "str_includes (c # cs) pat = (prefix pat (c # cs) \<or> str_includes cs pat)"

text \<open>\<open>Number.prototype.toString(radix)\<close> on integers, for a radix from 2 to 36.\<close>

definition digitChar :: "nat \<Rightarrow> char" where
  "digitChar d = ''0123456789abcdefghijklmnopqrstuvwxyz'' ! (d mod 36)"

function natToString :: "nat \<Rightarrow> nat \<Rightarrow> string" where
  "natToString b n =
     (if b \<le> 1 \<or> n < b then [digitChar n]
      else natToString b (n div b) @ [digitChar (n mod b)])"
  by pat_completeness auto
termination
  by (relation "measure (\<lambda>(b, n). n)") auto

declare natToString.simps [simp del]

definition intToString :: "nat \<Rightarrow> int \<Rightarrow> string" where
  "intToString b i = (if i < 0 then ''-'' @ natToString b (nat (- i)) else natToString b (nat i))"

text \<open>
  An ordinary object is the list of its own properties in the order of their creation, each
  name once. JavaScript enumerates them (\<open>Object.keys\<close>, \<open>Object.values\<close>,
  \<open>Object.entries\<close>) with the names that are array indices (canonical decimal numerals up
  to \<open>2^32 - 2\<close>) first, in ascending numeric order, and the other names after them in the
  order of creation.
\<close>

definition isDigit :: "char \<Rightarrow> bool" where
  "isDigit c = (let n = (of_char c :: nat) in 48 \<le> n \<and> n \<le> 57)"

definition parseNat :: "string \<Rightarrow> nat" where
  "parseNat s = foldl (\<lambda>n c. 10 * n + ((of_char c :: nat) - 48)) 0 s"

definition isArrayIndex :: "string \<Rightarrow> bool" where
  "isArrayIndex k =
     (k \<noteq> [] \<and> list_all isDigit k \<and> (if hd k = CHR ''0'' then k = ''0'' else True)
      \<and> parseNat k \<le> 4294967294)"

definition objectEntries :: "(string \<times> 'v) list \<Rightarrow> (string \<times> 'v) list" where
  "objectEntries m =
     sort_key (\<lambda>kv. parseNat (fst kv)) (filter (\<lambda>kv. isArrayIndex (fst kv)) m)
     @ filter (\<lambda>kv. \<not> isArrayIndex (fst kv)) m"

definition objectValues :: "(string \<times> 'v) list \<Rightarrow> 'v list" where
  "objectValues m = map snd (objectEntries m)"

text \<open>
  An object written \<open>{}\<close> inherits the properties of \<open>Object.prototype\<close>. Reading one of
  these names on an object that has no own property of the name gives the inherited value, a
  function, or for \<open>__proto__\<close> the prototype itself: a truthy value that has no \<open>push\<close>
  and no \<open>files\<close>. Assigning to \<open>__proto__\<close> replaces the prototype and creates no own
  property; assigning to any other name creates or overwrites an own property.
\<close>

definition PROTO :: string where
  "PROTO = ''__proto__''"

definition inheritedNames :: "string list" where
  "inheritedNames =
     [''constructor'', ''__defineGetter__'', ''__defineSetter__'', ''hasOwnProperty'',
      ''__lookupGetter__'', ''__lookupSetter__'', ''isPrototypeOf'', ''propertyIsEnumerable'',
      ''toString'', ''valueOf'', ''__proto__'', ''toLocaleString'']"

text \<open>
  \<open>obj[key]\<close> read as a condition and then as the target of a method call, for an object
  written \<open>{}\<close> whose own properties are \<open>m\<close>: the own value, an inherited value, or
  nothing.
\<close>

datatype 'v lookup = Own 'v | Inherited | Absent

definition objectGet :: "(string \<times> 'v) list \<Rightarrow> string \<Rightarrow> 'v lookup" where
  "objectGet m key =
     (case map_of m key of
        Some v \<Rightarrow> Own v
      | None \<Rightarrow> if key \<in> set inheritedNames then Inherited else Absent)"

text \<open>A loop over a list whose body may raise: the first error ends it.\<close>

fun forEach :: "('s \<Rightarrow> 'a \<Rightarrow> error + 's) \<Rightarrow> 'a list \<Rightarrow> 's \<Rightarrow> error + 's" where
  "forEach body [] s = Inr s"
| "forEach body (x # xs) s =
     (case body s x of
        Inl err \<Rightarrow> Inl err
      | Inr s' \<Rightarrow> forEach body xs s')"

text \<open>
  \<open>Array.prototype.sort(compare)\<close>: a stable sort, as the language guarantees. The
  comparator returns a number, negative when its first argument goes first. The elements
  are inserted from the last to the first, each before the first element it does not have
  to follow, so that equal elements keep their order.
\<close>

fun insertCmp :: "('a \<Rightarrow> 'a \<Rightarrow> int) \<Rightarrow> 'a \<Rightarrow> 'a list \<Rightarrow> 'a list" where
  "insertCmp cmp x [] = [x]"
| "insertCmp cmp x (y # ys) = (if cmp x y \<le> 0 then x # y # ys else y # insertCmp cmp x ys)"

definition jsSort :: "('a \<Rightarrow> 'a \<Rightarrow> int) \<Rightarrow> 'a list \<Rightarrow> 'a list" where
  "jsSort cmp xs = foldr (insertCmp cmp) xs []"

text \<open>
  The environment of a run: the JavaScript runtime and what the file system answers.
  \<open>toLowerCase\<close> is \<open>String.prototype.toLowerCase\<close>, \<open>listDirectory\<close> the answer of the
  client for a directory (hidden entries already dropped) or its failure, \<open>stat\<close> the size
  and modification time \<open>fs.stat\<close> reports for a path (\<open>None\<close> when it fails),
  \<open>randomHash\<close> the string \<open>Math.random().toString(36)\<close> that replaces the hash then,
  \<open>now\<close> the reading of the clock when the entry of a path is enriched, \<open>normalize\<close> is
  \<open>path.normalize\<close>, and \<open>username\<close> the name taken from the process environment.
\<close>

record env =
  toLowerCase :: "string \<Rightarrow> string"
  listDirectory :: "string \<Rightarrow> error + FileRecord list"
  pathExists :: "string \<Rightarrow> bool"
  stat :: "string \<Rightarrow> (int \<times> int) option"
  randomHash :: "string \<Rightarrow> string"
  now :: "string \<Rightarrow> int"
  normalize :: "string \<Rightarrow> string"
  username :: string

section \<open>FileScanner: size buckets\<close>

text \<open>
  The test of the loop in \<open>getSizeCategory\<close>:
  \<open>size >= range.min && (range.max === -1 || size <= range.max)\<close>.
\<close>

definition bucketMatches :: "int \<Rightarrow> sizeRange \<Rightarrow> bool" where
  "bucketMatches sz r = (sz \<ge> range_min r \<and> (range_max r = -1 \<or> sz \<le> range_max r))"

fun firstBucket :: "(string \<times> sizeRange) list \<Rightarrow> int \<Rightarrow> string" where
  "firstBucket [] sz = UNKNOWN"
| "firstBucket ((c, r) # rest) sz = (if bucketMatches sz r then c else firstBucket rest sz)"

definition getSizeCategory :: "config option \<Rightarrow> int \<Rightarrow> string" where
  "getSizeCategory cfg sz =
     (case cfg of None \<Rightarrow> UNKNOWN | Some c \<Rightarrow> firstBucket (objectEntries (sizeCategories c)) sz)"

text \<open>
  The buckets of the table that match a size, in declared order.
\<close>

definition matchingBuckets :: "(string \<times> sizeRange) list \<Rightarrow> int \<Rightarrow> string list" where
  "matchingBuckets table sz = map fst (filter (\<lambda>(c, r). bucketMatches sz r) table)"

text \<open>
  The size classification of the change report (src/src/main.js, \<open>getSizeCategory\<close>), over
  the same four boundaries, with strict upper bounds.
\<close>

definition getSizeCategory_main :: "int \<Rightarrow> string" where
  "getSizeCategory_main sz =
     (if sz < 1024 then ''tiny''
      else if sz < 1024 * 1024 then ''small''
      else if sz < 100 * 1024 * 1024 then ''medium''
      else if sz < 1024 * 1024 * 1024 then ''large''
      else ''huge'')"

section \<open>FileScanner: fingerprint and deduplication\<close>

text \<open>
  \<open>calculateFileHash\<close>: the string \<open>path:size:mtime\<close> is folded into a 32-bit integer,
  \<open>hash = ((hash << 5) - hash) + char; hash = hash & hash\<close>, read as a signed value and
  printed in base 36. \<open>charCodeAt\<close> is the byte for the ASCII paths modelled here.
\<close>

definition hashStep :: "32 word \<Rightarrow> char \<Rightarrow> 32 word" where
  "hashStep h c = (push_bit 5 h - h) + of_nat (of_char c)"

definition hashString :: "string \<Rightarrow> 32 word" where
  "hashString s = foldl hashStep 0 s"

definition hashInput :: "string \<Rightarrow> int \<Rightarrow> int \<Rightarrow> string" where
  "hashInput filePath sz mtime = filePath @ '':'' @ intToString 10 sz @ '':'' @ intToString 10 mtime"

definition calculateFileHash :: "env \<Rightarrow> string \<Rightarrow> string" where
  "calculateFileHash e filePath =
     (case stat e filePath of
        None \<Rightarrow> randomHash e filePath
      | Some (sz, mtime) \<Rightarrow> intToString 36 (sint (hashString (hashInput filePath sz mtime))))"

text \<open>The key of \<open>removeDuplicates\<close>: \<open>file.hash || file.path\<close>.\<close>

definition dedupKey :: "FileRecord \<Rightarrow> string" where
  "dedupKey f = (case hash f of None \<Rightarrow> path f | Some h \<Rightarrow> if h = [] then path f else h)"

text \<open>
  \<open>removeDuplicates\<close>: the Map \<open>uniqueFiles\<close> is the list of its entries in insertion
  order, which is the order \<open>values()\<close> walks.
\<close>

fun uniqueFiles :: "FileRecord list \<Rightarrow> (string \<times> FileRecord) list \<Rightarrow> (string \<times> FileRecord) list" where
  "uniqueFiles [] m = m"
| "uniqueFiles (f # fs) m =
     uniqueFiles fs (if map_of m (dedupKey f) = None then m @ [(dedupKey f, f)] else m)"

definition removeDuplicates :: "FileRecord list \<Rightarrow> FileRecord list" where
  "removeDuplicates files = map snd (uniqueFiles files [])"

section \<open>FileScanner: the walk\<close>

definition shouldExcludePath :: "env \<Rightarrow> config option \<Rightarrow> string \<Rightarrow> bool" where
  "shouldExcludePath e cfg pathStr =
     (case cfg of
        None \<Rightarrow> False
      | Some c \<Rightarrow>
          list_ex (\<lambda>excludePath.
              str_includes (toLowerCase e (normalize e pathStr)) (toLowerCase e (normalize e excludePath)))
            (excludePaths c))"

definition isRecentFile :: "FileRecord \<Rightarrow> int \<Rightarrow> bool" where
  "isRecentFile fileInfo cutoffDate =
     (createdTime fileInfo \<ge> cutoffDate \<or> modifiedTime fileInfo \<ge> cutoffDate)"

text \<open>
  \<open>getRelativeAge\<close>: the whole days between the creation time and the clock, as a label.
\<close>

definition getRelativeAge :: "int \<Rightarrow> int \<Rightarrow> string" where
  "getRelativeAge clock created =
     (let diffDays = (clock - created) div 86400000 in
      if diffDays = 0 then TODAY
      else if diffDays = 1 then YESTERDAY
      else if diffDays \<le> 7 then intToString 10 diffDays @ DAYS_AGO
      else if diffDays \<le> 30 then intToString 10 (diffDays div 7) @ WEEKS_AGO
      else intToString 10 (diffDays div 30) @ MONTHS_AGO)"

text \<open>
  \<open>getDetailedFileInfo\<close> copies the entry and adds the derived fields. Its last steps call
  \<open>toLowerCase\<close> on the extension, which raises when the entry has none; the handler then
  returns the entry unchanged.
\<close>

definition getDetailedFileInfo :: "env \<Rightarrow> config option \<Rightarrow> FileRecord \<Rightarrow> FileRecord" where
  "getDetailedFileInfo e cfg basicFileInfo =
     (case extension basicFileInfo of
        None \<Rightarrow> basicFileInfo
      | Some x \<Rightarrow>
          basicFileInfo\<lparr>hash := Some (calculateFileHash e (path basicFileInfo)),
                        category := None,
                        sizeCategory := Some (getSizeCategory cfg (fsize basicFileInfo)),
                        relativeAge := Some (getRelativeAge (now e (path basicFileInfo))
                                               (createdTime basicFileInfo))\<rparr>)"

text \<open>
  \<open>scanDirectory\<close>, with \<open>maxDepth = 10\<close>. A failing \<open>listDirectory\<close> is caught and
  leaves the list empty.
\<close>

function scanDirectory :: "env \<Rightarrow> config option \<Rightarrow> string \<Rightarrow> int \<Rightarrow> nat \<Rightarrow> FileRecord list" where
  "scanDirectory e cfg directoryPath cutoffDate depth =
     (if shouldExcludePath e cfg directoryPath then []
      else case listDirectory e directoryPath of
             Inl err \<Rightarrow> []
           | Inr directoryContents \<Rightarrow>
               concat (map (\<lambda>item.
                   if isFile item then
                     (if isRecentFile item cutoffDate then [getDetailedFileInfo e cfg item] else [])
                   else if isDirectory item \<and> depth < 10 then
                     scanDirectory e cfg (path item) cutoffDate (depth + 1)
                   else [])
                 directoryContents))"
  by pat_completeness auto
termination
  by (relation "measure (\<lambda>(e, cfg, directoryPath, cutoffDate, depth). 11 - depth)") auto

declare scanDirectory.simps [simp del]

function replaceAll :: "string \<Rightarrow> string \<Rightarrow> string \<Rightarrow> string" where
  "replaceAll pat rep s =
     (if s = [] then []
      else if pat \<noteq> [] \<and> prefix pat s then rep @ replaceAll pat rep (drop (length pat) s)
      else hd s # replaceAll pat rep (tl s))"
  by pat_completeness auto
termination
  by (relation "measure (\<lambda>(pat, rep, s). length s)") auto

declare replaceAll.simps [simp del]

definition expandPath :: "env \<Rightarrow> string \<Rightarrow> string" where
  "expandPath e pathStr = replaceAll ''%USERNAME%'' (username e) pathStr"

definition getScanPaths :: "config option \<Rightarrow> string \<Rightarrow> string list" where
  "getScanPaths cfg user =
     (case cfg of
        None \<Rightarrow> [''C:'' @ bs @ ''Users'' @ bs @ user @ bs @ ''Desktop'',
                 ''C:'' @ bs @ ''Users'' @ bs @ user @ bs @ ''Downloads'',
                 ''C:'' @ bs @ ''Users'' @ bs @ user @ bs @ ''Documents'']
      | Some c \<Rightarrow> scanPaths c)"

text \<open>
  \<open>scanRecentFiles\<close>. The cutoff date, which the source computes from the clock and the
  number of days, is a parameter. A configuration that failed to load (\<open>None\<close>) raises in
  \<open>ensureConfigLoaded\<close>.
\<close>

definition scanRecentFiles ::
  "env \<Rightarrow> config option \<Rightarrow> int \<Rightarrow> string list option \<Rightarrow> error + FileRecord list" where
  "scanRecentFiles e cfg cutoffDate customPaths =
     (case cfg of
        None \<Rightarrow> Inl IOError
      | Some c \<Rightarrow>
          (let paths = (case customPaths of None \<Rightarrow> getScanPaths cfg (username e) | Some ps \<Rightarrow> ps);
               allFiles = concat (map (\<lambda>scanPath.
                   let expandedPath = expandPath e scanPath in
                   if \<not> pathExists e expandedPath then []
                   else scanDirectory e cfg expandedPath cutoffDate 0) paths)
           in Inr (removeDuplicates allFiles)))"

section \<open>FileClassifier\<close>

text \<open>
  \<open>classifyFile\<close> walks \<open>Object.entries(fileCategories)\<close>. Reading
  \<open>categoryConfig.extensions.includes\<close> on an entry without an \<open>extensions\<close> field raises
  a TypeError.
\<close>

fun firstCategory :: "(string \<times> categoryConfig) list \<Rightarrow> string \<Rightarrow> error + string" where
  "firstCategory [] ext = Inr OTHER"
| "firstCategory ((categoryName, categoryConfig) # rest) ext =
     (case extensions categoryConfig of
        None \<Rightarrow> Inl TypeError
      | Some es \<Rightarrow> if ext \<in> set es then Inr categoryName else firstCategory rest ext)"

definition classifyFile :: "env \<Rightarrow> config \<Rightarrow> FileRecord \<Rightarrow> error + string" where
  "classifyFile e c file =
     (case extension file of
        None \<Rightarrow> Inr OTHER
      | Some x \<Rightarrow>
          if x = [] then Inr OTHER
          else firstCategory (objectEntries (fileCategories c)) (toLowerCase e x))"

text \<open>
  The per-category summary: \<open>count\<close> and \<open>totalSize\<close>. The derived figures (average,
  percentage) and the display attributes are left out.
\<close>

record categorySummary =
  s_count :: nat
  s_totalSize :: int

text \<open>The entries of the size, time and extension statistics.\<close>

record sizeBucket =
  b_count :: nat
  b_totalSize :: int
  b_files :: "FileRecord list"

record ageBucket =
  a_count :: nat
  a_files :: "FileRecord list"

record extensionStat =
  x_count :: nat
  x_totalSize :: int
  x_category :: "string option"

record statisticsRecord =
  sizeDistribution :: "(string \<times> sizeBucket) list"
  timeDistribution :: "(string \<times> ageBucket) list"
  extensionStats :: "(string \<times> extensionStat) list"
  duplicateFiles :: "FileRecord list list"
  largestFiles :: "FileRecord list"
  oldestFiles :: "FileRecord list"
  newestFiles :: "FileRecord list"

text \<open>
  The object \<open>classificationResult.categories\<close>. It is written \<open>{}\<close> and then assigned
  one empty array per category name. The assignment to the name \<open>__proto__\<close> creates no own
  property: it makes the array the prototype of the object, where \<open>categories['__proto__']\<close>
  finds it again. \<open>ownProps\<close> are the own properties in the order of their creation, which
  is all that \<open>Object.entries\<close>, \<open>Object.keys\<close> and \<open>Object.values\<close> enumerate;
  \<open>protoArray\<close> is the array that became the prototype, if any.
\<close>

record categoriesObject =
  ownProps :: "(string \<times> FileRecord list) list"
  protoArray :: "FileRecord list option"

record ClassificationResult =
  categories :: categoriesObject
  summary :: "(string \<times> categorySummary) list"
  totalFiles :: nat
  totalSize :: int
  statistics :: statisticsRecord

text \<open>\<open>categories[categoryName] = []\<close>, and the loop that does it for every key of the policy.\<close>

definition setCategory :: "categoriesObject \<Rightarrow> string \<Rightarrow> categoriesObject" where
  "setCategory cats categoryName =
     (if categoryName = PROTO then cats\<lparr>protoArray := Some []\<rparr>
      else cats\<lparr>ownProps := AList.update categoryName [] (ownProps cats)\<rparr>)"

definition initCategories :: "config \<Rightarrow> categoriesObject" where
  "initCategories c =
     foldl setCategory \<lparr>ownProps = [], protoArray = None\<rparr> (map fst (objectEntries (fileCategories c)))"

text \<open>
  \<open>categories[name].push(file)\<close>. An own property is an array and takes the record. For the
  name \<open>__proto__\<close> the value is the prototype: the array assigned under that name, which
  takes the record, or else \<open>Object.prototype\<close>. Any other value found (nothing, an
  inherited method, a member of the prototype array) has no \<open>push\<close>, and the call raises a
  TypeError (\<open>None\<close>).
\<close>

definition pushTo :: "categoriesObject \<Rightarrow> string \<Rightarrow> FileRecord \<Rightarrow> categoriesObject option" where
  "pushTo cats name file =
     (case map_of (ownProps cats) name of
        Some fs \<Rightarrow> Some (cats\<lparr>ownProps := AList.update name (fs @ [file]) (ownProps cats)\<rparr>)
      | None \<Rightarrow>
          if name = PROTO then
            (case protoArray cats of
               None \<Rightarrow> None
             | Some ps \<Rightarrow> Some (cats\<lparr>protoArray := Some (ps @ [file])\<rparr>))
          else None)"

text \<open>
  The loop of \<open>classifyFiles\<close> over the files, on the pair of the categories and the total
  size. The body is the \<open>try\<close> block; \<open>classifyCatch\<close> is its \<open>catch\<close> block, which
  is outside any handler of the loop: a failure there leaves the loop.
\<close>

definition classifyCatch :: "categoriesObject \<times> int \<Rightarrow> FileRecord \<Rightarrow> error + categoriesObject \<times> int" where
  "classifyCatch st file =
     (case pushTo (fst st) OTHER (file\<lparr>category := Some OTHER\<rparr>) of
        None \<Rightarrow> Inl TypeError
      | Some cats \<Rightarrow> Inr (cats, snd st))"

definition classifyStep :: "env \<Rightarrow> config \<Rightarrow> categoriesObject \<times> int \<Rightarrow> FileRecord
    \<Rightarrow> error + categoriesObject \<times> int" where
  "classifyStep e c st file =
     (case classifyFile e c file of
        Inl err \<Rightarrow> classifyCatch st file
      | Inr category' \<Rightarrow>
          (case pushTo (fst st) category' (file\<lparr>category := Some category'\<rparr>) of
             None \<Rightarrow> classifyCatch st (file\<lparr>category := Some category'\<rparr>)
           | Some cats \<Rightarrow> Inr (cats, snd st + fsize file)))"

definition classifyLoop :: "env \<Rightarrow> config \<Rightarrow> FileRecord list \<Rightarrow> categoriesObject \<times> int
    \<Rightarrow> error + categoriesObject \<times> int" where
  "classifyLoop e c files st = forEach (classifyStep e c) files st"

definition generateSummary :: "categoriesObject \<Rightarrow> (string \<times> categorySummary) list" where
  "generateSummary cats =
     map (\<lambda>(category', files). (category', \<lparr>s_count = length files, s_totalSize = sum_list (map fsize files)\<rparr>))
       (filter (\<lambda>(category', files). length files > 0) (objectEntries (ownProps cats)))"

text \<open>\<open>getAllFiles\<close> walks \<open>Object.values(categories)\<close>.\<close>

definition getAllFiles :: "categoriesObject \<Rightarrow> FileRecord list" where
  "getAllFiles cats = concat (objectValues (ownProps cats))"

text \<open>\<open>a || b\<close> on a string that may be absent.\<close>

definition orElse :: "string option \<Rightarrow> string \<Rightarrow> string" where
  "orElse s d = (case s of None \<Rightarrow> d | Some v \<Rightarrow> if v = [] then d else v)"

text \<open>
  \<open>analyzeSizeDistribution\<close>. The object \<open>sizeDistribution\<close> is written \<open>{}\<close>: for a
  label that names an inherited property the test \<open>!sizeDistribution[label]\<close> fails, no
  entry is created, and \<open>.files.push\<close> on the inherited value raises a TypeError.
\<close>

definition sizeStep :: "(string \<times> sizeBucket) list \<Rightarrow> FileRecord \<Rightarrow> error + (string \<times> sizeBucket) list" where
  "sizeStep dist file =
     (let label = orElse (sizeCategory file) UNKNOWN in
      case objectGet dist label of
        Absent \<Rightarrow> Inr (AList.update label \<lparr>b_count = 1, b_totalSize = fsize file, b_files = [file]\<rparr> dist)
      | Own b \<Rightarrow> Inr (AList.update label \<lparr>b_count = b_count b + 1, b_totalSize = b_totalSize b + fsize file,
                                            b_files = b_files b @ [file]\<rparr> dist)
      | Inherited \<Rightarrow> Inl TypeError)"

definition analyzeSizeDistribution :: "categoriesObject \<Rightarrow> error + (string \<times> sizeBucket) list" where
  "analyzeSizeDistribution cats = forEach sizeStep (getAllFiles cats) []"

text \<open>\<open>analyzeTimeDistribution\<close>, in the same way over the label \<open>relativeAge\<close>.\<close>

definition timeStep :: "(string \<times> ageBucket) list \<Rightarrow> FileRecord \<Rightarrow> error + (string \<times> ageBucket) list" where
  "timeStep dist file =
     (let age = orElse (relativeAge file) UNKNOWN in
      case objectGet dist age of
        Absent \<Rightarrow> Inr (AList.update age \<lparr>a_count = 1, a_files = [file]\<rparr> dist)
      | Own b \<Rightarrow> Inr (AList.update age \<lparr>a_count = a_count b + 1, a_files = a_files b @ [file]\<rparr> dist)
      | Inherited \<Rightarrow> Inl TypeError)"

definition analyzeTimeDistribution :: "categoriesObject \<Rightarrow> error + (string \<times> ageBucket) list" where
  "analyzeTimeDistribution cats = forEach timeStep (getAllFiles cats) []"

text \<open>
  \<open>analyzeExtensions\<close>. For an extension that names an inherited property no entry is
  created and the two counters are written to the inherited value, which raises nothing and
  leaves the object as it was. The entries are sorted by falling count and the first twenty
  make the result.
\<close>

definition extensionStep :: "(string \<times> extensionStat) list \<Rightarrow> FileRecord \<Rightarrow> (string \<times> extensionStat) list" where
  "extensionStep stats file =
     (let ext = orElse (extension file) NO_EXTENSION in
      case objectGet stats ext of
        Absent \<Rightarrow> AList.update ext \<lparr>x_count = 1, x_totalSize = fsize file, x_category = category file\<rparr> stats
      | Own s \<Rightarrow> AList.update ext (s\<lparr>x_count := x_count s + 1, x_totalSize := x_totalSize s + fsize file\<rparr>) stats
      | Inherited \<Rightarrow> stats)"

definition analyzeExtensions :: "categoriesObject \<Rightarrow> (string \<times> extensionStat) list" where
  "analyzeExtensions cats =
     take 20 (jsSort (\<lambda>a b. int (x_count (snd b)) - int (x_count (snd a)))
                (objectEntries (foldl extensionStep [] (getAllFiles cats))))"

text \<open>
  \<open>findDuplicateFiles\<close>: the object \<open>hashGroups\<close>, written \<open>{}\<close>, collects per truthy
  hash the files that carry it. For a hash that names an inherited property the test
  \<open>!hashGroups[file.hash]\<close> fails, no array is created, and \<open>.push\<close> on the inherited
  value raises a TypeError. The groups with more than one member are kept, the first ten of
  them in the enumeration order of the object.
\<close>

definition pushGroup :: "(string \<times> FileRecord list) list \<Rightarrow> FileRecord
    \<Rightarrow> error + (string \<times> FileRecord list) list" where
  "pushGroup groups file =
     (case hash file of
        None \<Rightarrow> Inr groups
      | Some h \<Rightarrow>
          if h = [] then Inr groups
          else (case objectGet groups h of
                  Absent \<Rightarrow> Inr (AList.update h [file] groups)
                | Own g \<Rightarrow> Inr (AList.update h (g @ [file]) groups)
                | Inherited \<Rightarrow> Inl TypeError))"

definition hashGroups :: "FileRecord list \<Rightarrow> error + (string \<times> FileRecord list) list" where
  "hashGroups allFiles = forEach pushGroup allFiles []"

definition findDuplicateFiles :: "categoriesObject \<Rightarrow> error + FileRecord list list" where
  "findDuplicateFiles cats =
     (case hashGroups (getAllFiles cats) of
        Inl err \<Rightarrow> Inl err
      | Inr groups \<Rightarrow> Inr (take 10 (filter (\<lambda>group. length group > 1) (objectValues groups))))"

definition findLargestFiles :: "categoriesObject \<Rightarrow> FileRecord list" where
  "findLargestFiles cats = take 10 (jsSort (\<lambda>a b. fsize b - fsize a) (getAllFiles cats))"

definition findOldestFiles :: "categoriesObject \<Rightarrow> FileRecord list" where
  "findOldestFiles cats = take 10 (jsSort (\<lambda>a b. createdTime a - createdTime b) (getAllFiles cats))"

definition findNewestFiles :: "categoriesObject \<Rightarrow> FileRecord list" where
  "findNewestFiles cats = take 10 (jsSort (\<lambda>a b. createdTime b - createdTime a) (getAllFiles cats))"

text \<open>
  \<open>generateStatistics\<close> computes the seven statistics in this order; the first one that
  raises ends it.
\<close>

definition generateStatistics :: "categoriesObject \<Rightarrow> error + statisticsRecord" where
  "generateStatistics cats =
     (case analyzeSizeDistribution cats of
        Inl err \<Rightarrow> Inl err
      | Inr sizes \<Rightarrow>
          (case analyzeTimeDistribution cats of
             Inl err \<Rightarrow> Inl err
           | Inr ages \<Rightarrow>
               (case findDuplicateFiles cats of
                  Inl err \<Rightarrow> Inl err
                | Inr groups \<Rightarrow>
                    Inr \<lparr>sizeDistribution = sizes,
                         timeDistribution = ages,
                         extensionStats = analyzeExtensions cats,
                         duplicateFiles = groups,
                         largestFiles = findLargestFiles cats,
                         oldestFiles = findOldestFiles cats,
                         newestFiles = findNewestFiles cats\<rparr>)))"

text \<open>
  \<open>classifyFiles\<close>. With no configuration loaded, reading \<open>this.config.fileCategories\<close>
  raises. Whatever is raised outside the handler of the loop body, in the handler itself or
  while the statistics are computed, reaches the outer handler, which logs it and raises it
  again.
\<close>

definition classifyFiles :: "env \<Rightarrow> config option \<Rightarrow> FileRecord list \<Rightarrow> error + ClassificationResult" where
  "classifyFiles e cfg files =
     (case cfg of
        None \<Rightarrow> Inl TypeError
      | Some c \<Rightarrow>
          (case classifyLoop e c files (initCategories c, 0) of
             Inl err \<Rightarrow> Inl err
           | Inr (cats, sizeSum) \<Rightarrow>
               (case generateStatistics cats of
                  Inl err \<Rightarrow> Inl err
                | Inr stats \<Rightarrow>
                    Inr \<lparr>categories = cats,
                         summary = generateSummary cats,
                         totalFiles = length files,
                         totalSize = sizeSum,
                         statistics = stats\<rparr>)))"

section \<open>Notions used in the statements\<close>

text \<open>
  The records that \<open>removeDuplicates\<close> keeps, described directly: a record is kept when
  its key has not been seen before.
\<close>

fun firstSeen :: "string set \<Rightarrow> FileRecord list \<Rightarrow> FileRecord list" where
  "firstSeen seen [] = []"
| "firstSeen seen (f # fs) =
     (if dedupKey f \<in> seen then firstSeen seen fs else f # firstSeen (insert (dedupKey f) seen) fs)"

text \<open>
  The category a record ends in: the one \<open>classifyFile\<close> returns, or \<open>OTHER\<close> when it
  raises; \<open>placed\<close> is the record as it is stored, with its category field set.
\<close>

definition assignedCategory :: "env \<Rightarrow> config \<Rightarrow> FileRecord \<Rightarrow> string" where
  "assignedCategory e c file = (case classifyFile e c file of Inl err \<Rightarrow> OTHER | Inr n \<Rightarrow> n)"

definition placed :: "env \<Rightarrow> config \<Rightarrow> FileRecord \<Rightarrow> FileRecord" where
  "placed e c file = file\<lparr>category := Some (assignedCategory e c file)\<rparr>"


definition protoFiles :: "categoriesObject \<Rightarrow> FileRecord list" where
  "protoFiles cats = (case protoArray cats of None \<Rightarrow> [] | Some ps \<Rightarrow> ps)"

text \<open>
  The categories object of a policy as it is throughout the loop of \<open>classifyFiles\<close>: an
  own property for every category name of the policy but \<open>__proto__\<close>, each name once, and
  a prototype array when the policy names \<open>__proto__\<close>.
\<close>

definition tableFor :: "config \<Rightarrow> categoriesObject \<Rightarrow> bool" where
  "tableFor c cats =
     (fst ` set (ownProps cats) = fst ` set (fileCategories c) - {PROTO}
      \<and> distinct (map fst (ownProps cats))
      \<and> (PROTO \<in> fst ` set (fileCategories c) \<longrightarrow> protoArray cats \<noteq> None))"

text \<open>
  A label that names a property inherited from \<open>Object.prototype\<close>, and a record none of
  whose labels does.
\<close>

definition inheritedLabel :: "string option \<Rightarrow> bool" where
  "inheritedLabel s = (case s of None \<Rightarrow> False | Some v \<Rightarrow> v \<in> set inheritedNames)"

definition plainLabels :: "FileRecord \<Rightarrow> bool" where
  "plainLabels f =
     (\<not> inheritedLabel (hash f) \<and> \<not> inheritedLabel (sizeCategory f) \<and> \<not> inheritedLabel (relativeAge f))"

text \<open>
  The grouping of \<open>findDuplicateFiles\<close> on a plain finite map: what \<open>hashGroups\<close> holds
  when no hash names an inherited property.
\<close>

definition addToGroup :: "(string \<times> FileRecord list) list \<Rightarrow> FileRecord \<Rightarrow> (string \<times> FileRecord list) list" where
  "addToGroup groups file =
     (case hash file of
        None \<Rightarrow> groups
      | Some h \<Rightarrow>
          if h = [] then groups
          else (case map_of groups h of
                  None \<Rightarrow> AList.update h [file] groups
                | Some g \<Rightarrow> AList.update h (g @ [file]) groups))"

definition groupsOf :: "FileRecord list \<Rightarrow> (string \<times> FileRecord list) list" where
  "groupsOf allFiles = foldl addToGroup [] allFiles"

text \<open>
  Lower-casing of the ASCII letters, which is what \<open>String.prototype.toLowerCase\<close> does on
  a string of ASCII characters; the sample environments below use it, on such strings only.
\<close>

definition charToLower :: "char \<Rightarrow> char" where
  "charToLower c =
     (let n = (of_char c :: nat) in if 65 \<le> n \<and> n \<le> 90 then char_of (n + 32) else c)"

definition asciiToLowerCase :: "string \<Rightarrow> string" where
  "asciiToLowerCase s = map charToLower s"

text \<open>Sample inputs: an entry as \<open>listDirectory\<close> builds it, and one with a hash.\<close>

definition basicFile :: "string \<Rightarrow> string \<Rightarrow> int \<Rightarrow> int \<Rightarrow> int \<Rightarrow> FileRecord" where
  "basicFile p x sz created modified =
     \<lparr>path = p, extension = Some x, fsize = sz, createdTime = created, modifiedTime = modified,
      isFile = True, isDirectory = False, hash = None, category = None, sizeCategory = None,
      relativeAge = None\<rparr>"

definition hashedFile :: "string \<Rightarrow> string \<Rightarrow> int \<Rightarrow> int \<Rightarrow> int \<Rightarrow> string \<Rightarrow> FileRecord" where
  "hashedFile p x sz created modified h = (basicFile p x sz created modified)\<lparr>hash := Some h\<rparr>"

definition dupA :: FileRecord where
  "dupA = hashedFile ''/r/a.txt'' ''.txt'' 10 1 2 ''h1''"

definition plainB :: FileRecord where
  "plainB = basicFile ''/r/b.txt'' ''.txt'' 20 3 4"

definition dupA2 :: FileRecord where
  "dupA2 = hashedFile ''/s/a.txt'' ''.txt'' 10 1 2 ''h1''"

definition policy :: "(string \<times> categoryConfig) list \<Rightarrow> config" where
  "policy cs = \<lparr>fileCategories = cs, sizeCategories = [], excludePaths = [], scanPaths = []\<rparr>"

definition overlapConfig :: config where
  "overlapConfig = policy [(''first'', cat [''.x'']), (''second'', cat [''.x'', ''.y''])]"

text \<open>A policy whose category names are array indices, declared in falling order.\<close>

definition indexConfig :: config where
  "indexConfig = policy [(''2'', cat [''.x'']), (''1'', cat [''.x''])]"


text \<open>
  A policy with a category that has no extension list, a policy that does not declare
  \<open>OTHER\<close>, and a policy with a category named \<open>__proto__\<close>, as \<open>JSON.parse\<close> makes
  it from a file with that key.
\<close>

definition brokenConfig :: config where
  "brokenConfig = policy [(''broken'', \<lparr>extensions = None\<rparr>), (OTHER, cat [])]"

definition noOtherConfig :: config where
  "noOtherConfig = policy [(DOCUMENTS, cat [''.pdf''])]"



text \<open>
  A sample file system: the directory \<open>/r\<close> holds a file created after the cutoff, a file
  modified after it, an old file, and a directory with one recent file.
\<close>

definition sampleEnv :: env where
  "sampleEnv =
     \<lparr>toLowerCase = asciiToLowerCase,
      listDirectory = (\<lambda>d.
        if d = ''/r'' then
          Inr [basicFile ''/r/new.txt'' ''.txt'' 4096 200 50,
               basicFile ''/r/old.txt'' ''.txt'' 4096 10 20,
               basicFile ''/r/edited.txt'' ''.txt'' 4096 10 150,
               (basicFile ''/r/sub'' [] 0 10 20)\<lparr>isFile := False, isDirectory := True\<rparr>]
        else if d = ''/r/sub'' then Inr [basicFile ''/r/sub/deep.txt'' ''.txt'' 7 300 300]
        else Inl IOError),
      pathExists = (\<lambda>p. p = ''/r''),
      stat = (\<lambda>p. None),
      randomHash = (\<lambda>p. ''0.'' @ p),
      now = (\<lambda>p. 400),
      normalize = (\<lambda>p. p),
      username = ''User''\<rparr>"

text \<open>
  Two files of the same size and modification time under different paths, as the scanner
  records them.
\<close>

definition twinEnv :: env where
  "twinEnv =
     \<lparr>toLowerCase = asciiToLowerCase,
      listDirectory = (\<lambda>d. Inl IOError),
      pathExists = (\<lambda>p. False),
      stat = (\<lambda>p. Some (4096, 1700000000000)),
      randomHash = (\<lambda>p. ''0.5'' @ p),
      now = (\<lambda>p. 1700000100000),
      normalize = (\<lambda>p. p),
      username = ''User''\<rparr>"

definition eTxt :: FileRecord where
  "eTxt = getDetailedFileInfo twinEnv (Some shippedConfig)
            (basicFile ''/r/e.txt'' ''.txt'' 4096 1699999990000 1700000000000)"

definition fTxt :: FileRecord where
  "fTxt = getDetailedFileInfo twinEnv (Some shippedConfig)
            (basicFile ''/r/f.txt'' ''.txt'' 4096 1699999990000 1700000000000)"




section \<open>Size buckets: what the code does at a boundary\<close>

lemmas label_defs = TINY_def SMALL_def MEDIUM_def LARGE_def HUGE_def UNKNOWN_def

lemma shipped_size_entries:
  "objectEntries (sizeCategories shippedConfig) = sizeCategories shippedConfig"
  by code_simp

text \<open>
  C2. The claim: every size \<open>s \<ge> 0\<close> is matched by exactly one bucket of the shipped table.
  At \<open>s = 1024\<close> the test of \<open>getSizeCategory\<close> accepts two buckets, the one that ends at
  1024 and the one that starts there, since it compares with \<open><=\<close> at the upper bound. The
  classification of main.js puts 1024 into the second bucket only.
\<close>

theorem size_1024_matches_two_buckets:
  "matchingBuckets (sizeCategories shippedConfig) 1024 = [TINY, SMALL]
   \<and> TINY \<noteq> SMALL
   \<and> getSizeCategory (Some shippedConfig) 1024 = TINY
   \<and> getSizeCategory_main 1024 = ''small''"
  by (simp add: getSizeCategory_def shipped_size_entries)
    (simp add: matchingBuckets_def shippedConfig_def shippedSizeCategories_def bucketMatches_def
      getSizeCategory_main_def label_defs)

text \<open>
  C3. The claim: a file of exactly 1048576 bytes gets the bucket whose lower bound is 1048576.
  The code returns the bucket before it, whose upper bound is 1048576; the classification of
  main.js returns the third of its five labels for the same size.
\<close>

theorem size_1048576_assigned_to_lower_bucket:
  "getSizeCategory (Some shippedConfig) 1048576 = SMALL
   \<and> map_of (sizeCategories shippedConfig) SMALL = Some \<lparr>range_min = 1024, range_max = 1048576\<rparr>
   \<and> map_of (sizeCategories shippedConfig) MEDIUM = Some \<lparr>range_min = 1048576, range_max = 104857600\<rparr>
   \<and> SMALL \<noteq> MEDIUM
   \<and> getSizeCategory_main 1048576 = ''medium''"
  by (simp add: getSizeCategory_def shipped_size_entries)
    (simp add: shippedConfig_def shippedSizeCategories_def bucketMatches_def
      getSizeCategory_main_def label_defs)

lemmas sample_defs = dupA_def plainB_def dupA2_def hashedFile_def basicFile_def

lemmas category_defs = OTHER_def DOCUMENTS_def IMAGES_def VIDEOS_def AUDIO_def PROGRAMS_def
  ARCHIVES_def CODE_def DATABASES_def SPREADSHEETS_def PRESENTATIONS_def

section \<open>Deduplication\<close>

lemma map_of_None_iff: "(map_of m k = None) = (k \<notin> fst ` set m)"
  by (simp add: map_of_eq_None_iff)

lemma uniqueFiles_firstSeen:
  "map snd (uniqueFiles fs m) = map snd m @ firstSeen (fst ` set m) fs"
  by (induction fs arbitrary: m) (auto simp: map_of_None_iff)

lemma removeDuplicates_firstSeen: "removeDuplicates fs = firstSeen {} fs"
  by (simp add: removeDuplicates_def uniqueFiles_firstSeen)

lemma firstSeen_subseq: "subseq (firstSeen seen fs) fs"
  by (induction fs arbitrary: seen) auto

lemma firstSeen_subset: "set (firstSeen seen fs) \<subseteq> set fs"
  by (induction fs arbitrary: seen) auto

lemma removeDuplicates_subset: "set (removeDuplicates fs) \<subseteq> set fs"
  by (simp add: removeDuplicates_firstSeen firstSeen_subset)

lemma firstSeen_keys: "dedupKey ` set (firstSeen seen fs) = dedupKey ` set fs - seen"
  by (induction fs arbitrary: seen) auto

lemma firstSeen_distinct: "distinct (map dedupKey (firstSeen seen fs))"
proof (induction fs arbitrary: seen)
  case Nil
  show ?case by simp
next
  case (Cons f fs)
  have "dedupKey f \<notin> dedupKey ` set (firstSeen (insert (dedupKey f) seen) fs)"
    by (simp add: firstSeen_keys)
  with Cons show ?case by simp
qed

lemma firstSeen_first:
  "f \<in> set (firstSeen seen fs) \<Longrightarrow> find (\<lambda>g. dedupKey g = dedupKey f) fs = Some f"
proof (induction fs arbitrary: seen)
  case Nil
  then show ?case by simp
next
  case (Cons g gs)
  show ?case
  proof (cases "dedupKey g \<in> seen")
    case True
    with Cons.prems have mem: "f \<in> set (firstSeen seen gs)" by simp
    then have "dedupKey f \<in> dedupKey ` set gs - seen"
      using firstSeen_keys [of seen gs] by blast
    with True have "dedupKey g \<noteq> dedupKey f" by auto
    with Cons.IH [OF mem] show ?thesis by simp
  next
    case False
    show ?thesis
    proof (cases "f = g")
      case True
      then show ?thesis by simp
    next
      case neq: False
      with False Cons.prems have mem: "f \<in> set (firstSeen (insert (dedupKey g) seen) gs)" by simp
      then have "dedupKey f \<in> dedupKey ` set gs - insert (dedupKey g) seen"
        using firstSeen_keys [of "insert (dedupKey g) seen" gs] by blast
      then have "dedupKey g \<noteq> dedupKey f" by auto
      with Cons.IH [OF mem] show ?thesis by simp
    qed
  qed
qed

lemma firstSeen_id:
  "distinct (map dedupKey fs) \<Longrightarrow> dedupKey ` set fs \<inter> seen = {} \<Longrightarrow> firstSeen seen fs = fs"
  by (induction fs arbitrary: seen) auto

text \<open>
  C7. \<open>removeDuplicates\<close> returns a subsequence of its input (so the kept records keep
  their relative order), no two kept records share a key, every key of the input is still
  there, each kept record is the first record of the input with its key, and an input whose
  keys are pairwise distinct comes back unchanged.
\<close>

theorem removeDuplicates_first_seen:
  "subseq (removeDuplicates files) files
   \<and> distinct (map dedupKey (removeDuplicates files))
   \<and> dedupKey ` set (removeDuplicates files) = dedupKey ` set files
   \<and> (\<forall>f \<in> set (removeDuplicates files). find (\<lambda>g. dedupKey g = dedupKey f) files = Some f)
   \<and> (distinct (map dedupKey files) \<longrightarrow> removeDuplicates files = files)"
  by (simp add: removeDuplicates_firstSeen firstSeen_subseq firstSeen_distinct firstSeen_keys
      firstSeen_first firstSeen_id)

theorem removeDuplicates_first_seen_witness:
  "removeDuplicates [dupA, plainB, dupA2] = [dupA, plainB]
   \<and> subseq [dupA, plainB] [dupA, plainB, dupA2]
   \<and> dedupKey ` set [dupA, plainB] = dedupKey ` set [dupA, plainB, dupA2]
   \<and> find (\<lambda>g. dedupKey g = dedupKey dupA) [dupA, plainB, dupA2] = Some dupA
   \<and> find (\<lambda>g. dedupKey g = dedupKey plainB) [dupA, plainB, dupA2] = Some plainB
   \<and> distinct (map dedupKey [dupA, plainB])
   \<and> removeDuplicates [dupA, plainB] = [dupA, plainB]"
proof -
  have e: "removeDuplicates [dupA, plainB, dupA2] = [dupA, plainB]"
    by (simp add: removeDuplicates_def dedupKey_def sample_defs)
  have d: "distinct (map dedupKey [dupA, plainB])"
    by (simp add: dedupKey_def sample_defs)
  from removeDuplicates_first_seen [of "[dupA, plainB, dupA2]"]
    removeDuplicates_first_seen [of "[dupA, plainB]"] e d
  show ?thesis by simp
qed

section \<open>Classification of one file\<close>

lemma mset_objectEntries: "mset (objectEntries m) = mset m"
  by (simp add: objectEntries_def)

lemma set_objectEntries: "set (objectEntries m) = set m"
  using mset_objectEntries [of m] by (metis set_mset_mset)

lemma set_objectValues: "set (objectValues m) = snd ` set m"
  by (simp add: objectValues_def set_objectEntries)

lemma objectEntries_no_index:
  "\<forall>n \<in> fst ` set m. \<not> isArrayIndex n \<Longrightarrow> objectEntries m = m"
  by (simp add: objectEntries_def filter_empty_conv filter_id_conv)

lemma firstCategory_match:
  "(\<forall>(n', c') \<in> set pre. \<exists>es'. extensions c' = Some es' \<and> x \<notin> set es') \<Longrightarrow>
   extensions cc = Some es \<Longrightarrow> x \<in> set es \<Longrightarrow>
   firstCategory (pre @ (n, cc) # post) x = Inr n"
  by (induction pre) auto

lemma firstCategory_raise:
  "(\<forall>(n', c') \<in> set pre. \<exists>es'. extensions c' = Some es' \<and> x \<notin> set es') \<Longrightarrow>
   extensions cc = None \<Longrightarrow>
   firstCategory (pre @ (n, cc) # post) x = Inl TypeError"
  by (induction pre) auto

lemma firstCategory_none:
  "(\<forall>(n', c') \<in> set cats. \<exists>es'. extensions c' = Some es' \<and> x \<notin> set es') \<Longrightarrow>
   firstCategory cats x = Inr OTHER"
  by (induction cats) auto

lemma index_entries:
  "objectEntries (fileCategories indexConfig) = [(''1'', cat [''.x'']), (''2'', cat [''.x''])]"
  by (simp add: objectEntries_def indexConfig_def policy_def isArrayIndex_def isDigit_def parseNat_def)

text \<open>
  C5, as stated: the first category in declared order wins. The policy below declares the
  category \<open>2\<close> before the category \<open>1\<close>, both with the extension \<open>.x\<close>, and a file
  with that extension gets the category \<open>1\<close>: \<open>Object.entries\<close> lists the names that
  are array indices in ascending numeric order, whatever the order of declaration.
\<close>

theorem later_declared_index_category_wins:
  "map fst (fileCategories indexConfig) = [''2'', ''1'']
   \<and> map (extensions \<circ> snd) (fileCategories indexConfig) = [Some [''.x''], Some [''.x'']]
   \<and> classifyFile sampleEnv indexConfig (basicFile ''/r/a.x'' ''.x'' 1 0 0) = Inr ''1''"
proof -
  have "toLowerCase sampleEnv ''.x'' = ''.x''"
    by code_simp
  then show ?thesis
    by (simp add: classifyFile_def index_entries basicFile_def cat_def)
      (simp add: indexConfig_def policy_def cat_def)
qed

text \<open>
  C5, amended. \<open>classifyFile\<close> returns \<open>OTHER\<close> for a record whose extension is absent or
  empty. Otherwise it walks the categories in the order in which \<open>Object.entries\<close>
  enumerates the policy and returns the first one whose extension list holds the extension
  as lower-cased by the runtime: the categories enumerated before it have extension lists
  that do not hold it, and what comes after it does not matter. It raises when it meets a
  category without extension list before any match, and returns \<open>OTHER\<close> when no category
  lists the extension. The enumeration order is the declared order when no category name is
  an array index, so that for such a policy the first declared category wins.
\<close>

theorem classifyFile_first_enumerated_wins:
  "(\<not> truthy (extension file) \<longrightarrow> classifyFile e c file = Inr OTHER)
   \<and> (\<forall>x pre n cc es post.
         extension file = Some x \<and> x \<noteq> [] \<and> objectEntries (fileCategories c) = pre @ (n, cc) # post
         \<and> (\<forall>(n', c') \<in> set pre. \<exists>es'. extensions c' = Some es' \<and> toLowerCase e x \<notin> set es')
         \<and> extensions cc = Some es \<and> toLowerCase e x \<in> set es
         \<longrightarrow> classifyFile e c file = Inr n)
   \<and> (\<forall>x pre n cc post.
         extension file = Some x \<and> x \<noteq> [] \<and> objectEntries (fileCategories c) = pre @ (n, cc) # post
         \<and> (\<forall>(n', c') \<in> set pre. \<exists>es'. extensions c' = Some es' \<and> toLowerCase e x \<notin> set es')
         \<and> extensions cc = None
         \<longrightarrow> classifyFile e c file = Inl TypeError)
   \<and> (\<forall>x. extension file = Some x \<and> x \<noteq> []
         \<and> (\<forall>(n', c') \<in> set (fileCategories c). \<exists>es'. extensions c' = Some es' \<and> toLowerCase e x \<notin> set es')
         \<longrightarrow> classifyFile e c file = Inr OTHER)
   \<and> ((\<forall>n \<in> fst ` set (fileCategories c). \<not> isArrayIndex n)
         \<longrightarrow> objectEntries (fileCategories c) = fileCategories c)"
proof (intro conjI allI impI)
  assume "\<not> truthy (extension file)"
  then show "classifyFile e c file = Inr OTHER"
    by (auto simp: truthy_def classifyFile_def split: option.splits)
next
  fix x pre n cc es post
  assume a: "extension file = Some x \<and> x \<noteq> [] \<and> objectEntries (fileCategories c) = pre @ (n, cc) # post
         \<and> (\<forall>(n', c') \<in> set pre. \<exists>es'. extensions c' = Some es' \<and> toLowerCase e x \<notin> set es')
         \<and> extensions cc = Some es \<and> toLowerCase e x \<in> set es"
  then have "firstCategory (pre @ (n, cc) # post) (toLowerCase e x) = Inr n"
    by (intro firstCategory_match) auto
  with a show "classifyFile e c file = Inr n"
    by (simp add: classifyFile_def)
next
  fix x pre n cc post
  assume a: "extension file = Some x \<and> x \<noteq> [] \<and> objectEntries (fileCategories c) = pre @ (n, cc) # post
         \<and> (\<forall>(n', c') \<in> set pre. \<exists>es'. extensions c' = Some es' \<and> toLowerCase e x \<notin> set es')
         \<and> extensions cc = None"
  then have "firstCategory (pre @ (n, cc) # post) (toLowerCase e x) = Inl TypeError"
    by (intro firstCategory_raise) auto
  with a show "classifyFile e c file = Inl TypeError"
    by (simp add: classifyFile_def)
next
  fix x
  assume a: "extension file = Some x \<and> x \<noteq> []
         \<and> (\<forall>(n', c') \<in> set (fileCategories c). \<exists>es'. extensions c' = Some es' \<and> toLowerCase e x \<notin> set es')"
  then have "firstCategory (objectEntries (fileCategories c)) (toLowerCase e x) = Inr OTHER"
    by (intro firstCategory_none) (simp add: set_objectEntries)
  with a show "classifyFile e c file = Inr OTHER"
    by (simp add: classifyFile_def)
next
  assume "\<forall>n \<in> fst ` set (fileCategories c). \<not> isArrayIndex n"
  then show "objectEntries (fileCategories c) = fileCategories c"
    by (rule objectEntries_no_index)
qed

theorem classifyFile_first_enumerated_wins_witness:
  "classifyFile sampleEnv overlapConfig (basicFile ''/r/A.X'' ''.X'' 1 0 0) = Inr ''first''
   \<and> classifyFile sampleEnv overlapConfig (basicFile ''/r/b.y'' ''.y'' 1 0 0) = Inr ''second''
   \<and> classifyFile sampleEnv overlapConfig (basicFile ''/r/c.z'' ''.z'' 1 0 0) = Inr OTHER
   \<and> classifyFile sampleEnv overlapConfig (basicFile ''/r/noext'' [] 1 0 0) = Inr OTHER
   \<and> classifyFile sampleEnv brokenConfig (basicFile ''/r/a.pdf'' ''.pdf'' 1 0 0) = Inl TypeError
   \<and> objectEntries (fileCategories overlapConfig) = fileCategories overlapConfig
   \<and> objectEntries (fileCategories indexConfig) = [(''1'', cat [''.x'']), (''2'', cat [''.x''])]
   \<and> classifyFile sampleEnv indexConfig (basicFile ''/r/a.x'' ''.x'' 1 0 0) = Inr ''1''"
proof -
  have lower: "toLowerCase sampleEnv ''.X'' = ''.x''" "toLowerCase sampleEnv ''.y'' = ''.y''"
    "toLowerCase sampleEnv ''.z'' = ''.z''" "toLowerCase sampleEnv ''.pdf'' = ''.pdf''"
    "toLowerCase sampleEnv ''.x'' = ''.x''"
    by code_simp+
  have noIndex: "\<forall>n \<in> fst ` set (fileCategories overlapConfig). \<not> isArrayIndex n"
    by code_simp
  have entries: "objectEntries (fileCategories overlapConfig)
      = [(''first'', cat [''.x'']), (''second'', cat [''.x'', ''.y''])]"
    by code_simp
  have broken: "objectEntries (fileCategories brokenConfig)
      = [(''broken'', \<lparr>extensions = None\<rparr>), (OTHER, cat [])]"
    by code_simp
  note index = index_entries
  note t = classifyFile_first_enumerated_wins [of _ sampleEnv overlapConfig]
  have 1: "classifyFile sampleEnv overlapConfig (basicFile ''/r/A.X'' ''.X'' 1 0 0) = Inr ''first''"
    using t [of "basicFile ''/r/A.X'' ''.X'' 1 0 0",
        THEN conjunct2, THEN conjunct1, rule_format,
        of "''.X''" "[]" "''first''" "cat [''.x'']" "[(''second'', cat [''.x'', ''.y''])]" "[''.x'']"]
    by (simp add: entries basicFile_def cat_def lower)
  have 2: "classifyFile sampleEnv overlapConfig (basicFile ''/r/b.y'' ''.y'' 1 0 0) = Inr ''second''"
    using t [of "basicFile ''/r/b.y'' ''.y'' 1 0 0",
        THEN conjunct2, THEN conjunct1, rule_format,
        of "''.y''" "[(''first'', cat [''.x''])]" "''second''" "cat [''.x'', ''.y'']" "[]" "[''.x'', ''.y'']"]
    by (simp add: entries basicFile_def cat_def lower)
  have 3: "classifyFile sampleEnv overlapConfig (basicFile ''/r/c.z'' ''.z'' 1 0 0) = Inr OTHER"
    using t [of "basicFile ''/r/c.z'' ''.z'' 1 0 0",
        THEN conjunct2, THEN conjunct2, THEN conjunct2, THEN conjunct1, rule_format, of "''.z''"]
    by (simp add: overlapConfig_def policy_def basicFile_def cat_def lower)
  have 4: "classifyFile sampleEnv overlapConfig (basicFile ''/r/noext'' [] 1 0 0) = Inr OTHER"
    using t [of "basicFile ''/r/noext'' [] 1 0 0", THEN conjunct1]
    by (simp add: basicFile_def truthy_def)
  have 5: "classifyFile sampleEnv brokenConfig (basicFile ''/r/a.pdf'' ''.pdf'' 1 0 0) = Inl TypeError"
    using classifyFile_first_enumerated_wins [of "basicFile ''/r/a.pdf'' ''.pdf'' 1 0 0" sampleEnv brokenConfig,
        THEN conjunct2, THEN conjunct2, THEN conjunct1, rule_format,
        of "''.pdf''" "[]" "''broken''" "\<lparr>extensions = None\<rparr>" "[(OTHER, cat [])]"]
    by (simp add: broken basicFile_def lower)
  have 6: "objectEntries (fileCategories overlapConfig) = fileCategories overlapConfig"
    using t [of "basicFile ''/r/noext'' [] 1 0 0", THEN conjunct2, THEN conjunct2, THEN conjunct2, THEN conjunct2] noIndex
    by blast
  have 7: "classifyFile sampleEnv indexConfig (basicFile ''/r/a.x'' ''.x'' 1 0 0) = Inr ''1''"
    using classifyFile_first_enumerated_wins [of "basicFile ''/r/a.x'' ''.x'' 1 0 0" sampleEnv indexConfig,
        THEN conjunct2, THEN conjunct1, rule_format,
        of "''.x''" "[]" "''1''" "cat [''.x'']" "[(''2'', cat [''.x''])]" "[''.x'']"]
    by (simp add: index basicFile_def cat_def lower)
  from 1 2 3 4 5 6 7 index show ?thesis by simp
qed

section \<open>The walk keeps recent files only\<close>

lemma getDetailedFileInfo_times [simp]:
  "createdTime (getDetailedFileInfo e cfg item) = createdTime item"
  "modifiedTime (getDetailedFileInfo e cfg item) = modifiedTime item"
  by (simp_all add: getDetailedFileInfo_def split: option.splits)

lemma scanDirectory_recent:
  "f \<in> set (scanDirectory e cfg d cutoff depth) \<Longrightarrow> isRecentFile f cutoff"
proof (induction e cfg d cutoff depth arbitrary: f rule: scanDirectory.induct)
  case (1 e cfg d cutoff depth)
  show ?case
  proof (cases "shouldExcludePath e cfg d")
    case True
    with "1.prems" show ?thesis by (simp add: scanDirectory.simps)
  next
    case notExcluded: False
    show ?thesis
    proof (cases "listDirectory e d")
      case (Inl err)
      with notExcluded "1.prems" show ?thesis by (simp add: scanDirectory.simps)
    next
      case (Inr directoryContents)
      with notExcluded "1.prems" obtain item where
        item: "item \<in> set directoryContents" and
        mem: "f \<in> set (if isFile item then
                     (if isRecentFile item cutoff then [getDetailedFileInfo e cfg item] else [])
                   else if isDirectory item \<and> depth < 10 then
                     scanDirectory e cfg (path item) cutoff (depth + 1)
                   else [])"
        by (subst (asm) scanDirectory.simps) auto
      show ?thesis
      proof (cases "isFile item")
        case True
        with mem show ?thesis by (auto simp: isRecentFile_def split: if_splits)
      next
        case False
        with mem have sub: "isDirectory item \<and> depth < 10"
          and "f \<in> set (scanDirectory e cfg (path item) cutoff (depth + 1))"
          by (auto split: if_splits)
        with "1.IH" [OF notExcluded Inr item False] show ?thesis by simp
      qed
    qed
  qed
qed

text \<open>
  C6. Every record that \<open>scanDirectory\<close> returns, and every record that
  \<open>scanRecentFiles\<close> returns, was created or modified at or after the cutoff date; a file
  that meets neither condition is in neither list.
\<close>

theorem scanned_files_meet_cutoff:
  "(\<forall>f \<in> set (scanDirectory e cfg directoryPath cutoffDate depth).
       createdTime f \<ge> cutoffDate \<or> modifiedTime f \<ge> cutoffDate)
   \<and> (\<forall>files. scanRecentFiles e cfg cutoffDate customPaths = Inr files \<longrightarrow>
         (\<forall>f \<in> set files. createdTime f \<ge> cutoffDate \<or> modifiedTime f \<ge> cutoffDate))"
proof (intro conjI ballI allI impI)
  fix f assume "f \<in> set (scanDirectory e cfg directoryPath cutoffDate depth)"
  then show "createdTime f \<ge> cutoffDate \<or> modifiedTime f \<ge> cutoffDate"
    using scanDirectory_recent by (simp add: isRecentFile_def)
next
  fix files f
  assume r: "scanRecentFiles e cfg cutoffDate customPaths = Inr files" and f: "f \<in> set files"
  define paths where
    "paths = (case customPaths of None \<Rightarrow> getScanPaths cfg (username e) | Some ps \<Rightarrow> ps)"
  define allFiles where
    "allFiles = concat (map (\<lambda>scanPath.
                   let expandedPath = expandPath e scanPath in
                   if \<not> pathExists e expandedPath then []
                   else scanDirectory e cfg expandedPath cutoffDate 0) paths)"
  from r have files: "files = removeDuplicates allFiles"
    by (auto simp: scanRecentFiles_def allFiles_def paths_def Let_def split: option.splits)
  from f files removeDuplicates_subset have "f \<in> set allFiles" by blast
  then obtain d where "f \<in> set (scanDirectory e cfg d cutoffDate 0)"
    by (auto simp: allFiles_def Let_def split: if_splits)
  then show "createdTime f \<ge> cutoffDate \<or> modifiedTime f \<ge> cutoffDate"
    using scanDirectory_recent by (simp add: isRecentFile_def)
qed

theorem scanned_files_meet_cutoff_witness:
  "map path (scanDirectory sampleEnv None ''/r'' 100 0)
     = [''/r/new.txt'', ''/r/edited.txt'', ''/r/sub/deep.txt'']
   \<and> list_all (\<lambda>f. createdTime f \<ge> 100 \<or> modifiedTime f \<ge> 100)
        (scanDirectory sampleEnv None ''/r'' 100 0)
   \<and> (\<exists>files. scanRecentFiles sampleEnv (Some shippedConfig) 100 (Some [''/r'', ''/none'']) = Inr files
         \<and> list_all (\<lambda>f. createdTime f \<ge> 100 \<or> modifiedTime f \<ge> 100) files)"
proof -
  have 1: "map path (scanDirectory sampleEnv None ''/r'' 100 0)
     = [''/r/new.txt'', ''/r/edited.txt'', ''/r/sub/deep.txt'']"
    by (simp add: scanDirectory.simps sampleEnv_def shouldExcludePath_def basicFile_def
        isRecentFile_def getDetailedFileInfo_def)
  have 2: "\<exists>files. scanRecentFiles sampleEnv (Some shippedConfig) 100 (Some [''/r'', ''/none'']) = Inr files"
    by (simp add: scanRecentFiles_def)
  note t = scanned_files_meet_cutoff [of sampleEnv _ _ 100]
  from t [of None "''/r''" 0] have 3: "list_all (\<lambda>f. createdTime f \<ge> 100 \<or> modifiedTime f \<ge> 100)
        (scanDirectory sampleEnv None ''/r'' 100 0)"
    by (simp add: list_all_iff)
  from 2 t [of "Some shippedConfig" _ _ "Some [''/r'', ''/none'']"]
  have 4: "\<exists>files. scanRecentFiles sampleEnv (Some shippedConfig) 100 (Some [''/r'', ''/none'']) = Inr files
         \<and> list_all (\<lambda>f. createdTime f \<ge> 100 \<or> modifiedTime f \<ge> 100) files"
    by (auto simp: list_all_iff)
  from 1 3 4 show ?thesis by blast
qed

section \<open>Classification of a list of files\<close>

lemma firstCategory_in:
  "firstCategory cats x = Inr n \<Longrightarrow> n = OTHER \<or> n \<in> fst ` set cats"
  by (induction cats) (auto split: option.splits if_splits)

lemma classifyFile_in:
  "classifyFile e c f = Inr n \<Longrightarrow> n = OTHER \<or> n \<in> fst ` set (fileCategories c)"
  by (auto simp: classifyFile_def set_objectEntries split: option.splits if_splits
      dest!: firstCategory_in)

lemma assignedCategory_in:
  "OTHER \<in> fst ` set (fileCategories c) \<Longrightarrow> assignedCategory e c f \<in> fst ` set (fileCategories c)"
  using classifyFile_in [of e c f] by (auto simp: assignedCategory_def split: sum.splits)

lemma OTHER_not_PROTO: "OTHER \<noteq> PROTO"
  by (simp add: OTHER_def PROTO_def)

lemma map_of_None_keys: "(map_of m k = None) = (k \<notin> fst ` set m)"
  by (simp add: map_of_eq_None_iff)

lemma map_of_Some_keys: "k \<in> fst ` set m \<Longrightarrow> \<exists>v. map_of m k = Some v"
  by (cases "map_of m k") (auto simp: map_of_eq_None_iff)

subsection \<open>The empty categories object\<close>

lemma foldl_setCategory_map_of:
  "map_of (ownProps (foldl setCategory cats ns)) n =
     (if n \<in> set ns \<and> n \<noteq> PROTO then Some [] else map_of (ownProps cats) n)"
  by (induction ns arbitrary: cats) (auto simp: setCategory_def update_conv')

lemma foldl_setCategory_proto:
  "protoArray (foldl setCategory cats ns) = (if PROTO \<in> set ns then Some [] else protoArray cats)"
  by (induction ns arbitrary: cats) (auto simp: setCategory_def)

lemma foldl_setCategory_distinct:
  "distinct (map fst (ownProps cats)) \<Longrightarrow> distinct (map fst (ownProps (foldl setCategory cats ns)))"
  by (induction ns arbitrary: cats) (auto simp: setCategory_def distinct_update)


lemma keys_objectEntries: "set (map fst (objectEntries m)) = fst ` set m"
  by (simp add: set_objectEntries)


lemma init_map_of:
  "map_of (ownProps (initCategories c)) n =
     (if n \<in> fst ` set (fileCategories c) \<and> n \<noteq> PROTO then Some [] else None)"
  by (simp add: initCategories_def foldl_setCategory_map_of set_objectEntries)

lemma init_proto:
  "protoArray (initCategories c) = (if PROTO \<in> fst ` set (fileCategories c) then Some [] else None)"
  by (simp add: initCategories_def foldl_setCategory_proto set_objectEntries)

lemma init_distinct: "distinct (map fst (ownProps (initCategories c)))"
  by (simp add: initCategories_def foldl_setCategory_distinct)


lemma init_tableFor: "tableFor c (initCategories c)"
proof -
  have "fst ` set (ownProps (initCategories c)) = fst ` set (fileCategories c) - {PROTO}"
  proof (intro set_eqI)
    fix n
    have "n \<in> fst ` set (ownProps (initCategories c)) \<longleftrightarrow> map_of (ownProps (initCategories c)) n \<noteq> None"
      by (simp add: map_of_None_keys)
    then show "n \<in> fst ` set (ownProps (initCategories c)) \<longleftrightarrow> n \<in> fst ` set (fileCategories c) - {PROTO}"
      by (simp add: init_map_of)
  qed
  then show ?thesis
    by (simp add: tableFor_def init_distinct init_proto)
qed

lemma init_values: "p \<in> set (ownProps (initCategories c)) \<Longrightarrow> snd p = []"
proof -
  assume p: "p \<in> set (ownProps (initCategories c))"
  then have "(fst p, snd p) \<in> set (ownProps (initCategories c))" by simp
  with init_distinct have "map_of (ownProps (initCategories c)) (fst p) = Some (snd p)"
    by (rule map_of_is_SomeI)
  then show "snd p = []"
    by (simp add: init_map_of split: if_splits)
qed

subsection \<open>One record\<close>

lemma pushTo_own:
  "map_of (ownProps cats) n = Some fs \<Longrightarrow>
   pushTo cats n x = Some (cats\<lparr>ownProps := AList.update n (fs @ [x]) (ownProps cats)\<rparr>)"
  by (simp add: pushTo_def)

lemma pushTo_proto:
  "map_of (ownProps cats) PROTO = None \<Longrightarrow> protoArray cats = Some ps \<Longrightarrow>
   pushTo cats PROTO x = Some (cats\<lparr>protoArray := Some (ps @ [x])\<rparr>)"
  by (simp add: pushTo_def)

lemma pushTo_cases:
  assumes "pushTo cats n x = Some cats'"
  obtains (own) fs where "map_of (ownProps cats) n = Some fs"
      "cats' = cats\<lparr>ownProps := AList.update n (fs @ [x]) (ownProps cats)\<rparr>"
    | (proto) ps where "map_of (ownProps cats) n = None" "n = PROTO" "protoArray cats = Some ps"
      "cats' = cats\<lparr>protoArray := Some (ps @ [x])\<rparr>"
  using assms by (auto simp: pushTo_def split: option.splits if_splits)

lemma pushTo_declared:
  assumes "tableFor c cats" and "n \<in> fst ` set (fileCategories c)"
  shows "\<exists>cats'. pushTo cats n x = Some cats'"
proof (cases "n = PROTO")
  case True
  with assms have "map_of (ownProps cats) PROTO = None" "protoArray cats \<noteq> None"
    by (auto simp: tableFor_def map_of_None_keys)
  with True show ?thesis by (auto simp: pushTo_def)
next
  case False
  with assms have "n \<in> fst ` set (ownProps cats)" by (simp add: tableFor_def)
  then obtain fs where "map_of (ownProps cats) n = Some fs"
    using map_of_Some_keys by fastforce
  then show ?thesis by (simp add: pushTo_def)
qed

lemma pushTo_effect:
  assumes "tableFor c cats" and "pushTo cats n x = Some cats'"
  shows "tableFor c cats'"
    and "map fst (ownProps cats') = map fst (ownProps cats)"
    and "map_of (ownProps cats') k = map_option (\<lambda>fs. if k = n then fs @ [x] else fs) (map_of (ownProps cats) k)"
    and "protoArray cats' = map_option (\<lambda>ps. if n = PROTO then ps @ [x] else ps) (protoArray cats)"
proof -
  from assms(1) have noProto: "PROTO \<notin> fst ` set (ownProps cats)"
    by (simp add: tableFor_def)
  from assms(2) have "tableFor c cats'
    \<and> map fst (ownProps cats') = map fst (ownProps cats)
    \<and> map_of (ownProps cats') k = map_option (\<lambda>fs. if k = n then fs @ [x] else fs) (map_of (ownProps cats) k)
    \<and> protoArray cats' = map_option (\<lambda>ps. if n = PROTO then ps @ [x] else ps) (protoArray cats)"
  proof (cases rule: pushTo_cases)
    case (own fs)
    then have nin: "n \<in> fst ` set (ownProps cats)"
      by (metis map_of_None_keys option.distinct(1))
    with noProto have np: "n \<noteq> PROTO" by blast
    from nin have keys: "map fst (AList.update n (fs @ [x]) (ownProps cats)) = map fst (ownProps cats)"
      by (simp add: update_keys)
    have t: "tableFor c cats'"
      using assms(1) own(2) keys nin by (simp add: tableFor_def dom_update insert_absorb)
    have m: "map_of (ownProps cats') k
        = map_option (\<lambda>fs. if k = n then fs @ [x] else fs) (map_of (ownProps cats) k)"
      using own by (cases "map_of (ownProps cats) k") (auto simp: update_conv')
    have p: "protoArray cats' = map_option (\<lambda>ps. if n = PROTO then ps @ [x] else ps) (protoArray cats)"
      using own(2) np by (cases "protoArray cats") auto
    from t keys m p own(2) show ?thesis by simp
  next
    case (proto ps)
    have t: "tableFor c cats'"
      using assms(1) proto(4) by (simp add: tableFor_def)
    have m: "map_of (ownProps cats') k
        = map_option (\<lambda>fs. if k = n then fs @ [x] else fs) (map_of (ownProps cats) k)"
      using proto by (cases "map_of (ownProps cats) k") auto
    from t m proto show ?thesis by simp
  qed
  then show "tableFor c cats'"
    and "map fst (ownProps cats') = map fst (ownProps cats)"
    and "map_of (ownProps cats') k = map_option (\<lambda>fs. if k = n then fs @ [x] else fs) (map_of (ownProps cats) k)"
    and "protoArray cats' = map_option (\<lambda>ps. if n = PROTO then ps @ [x] else ps) (protoArray cats)"
    by simp_all
qed

lemma classifyStep_result:
  assumes "tableFor c cats" and "classifyStep e c (cats, t) f = Inr (cats', t')"
  shows "pushTo cats (assignedCategory e c f) (placed e c f) = Some cats'"
proof (cases "classifyFile e c f")
  case (Inl err)
  with assms(2) show ?thesis
    by (auto simp: classifyStep_def classifyCatch_def assignedCategory_def placed_def
        split: option.splits)
next
  case (Inr n)
  show ?thesis
  proof (cases "pushTo cats n (f\<lparr>category := Some n\<rparr>)")
    case (Some cats1)
    with Inr assms(2) show ?thesis
      by (simp add: classifyStep_def assignedCategory_def placed_def)
  next
    case None
    have "n \<notin> fst ` set (fileCategories c)"
      using pushTo_declared [OF assms(1), of n "f\<lparr>category := Some n\<rparr>"] None by auto
    with classifyFile_in [OF Inr] have "n = OTHER" by simp
    with None Inr assms(2) show ?thesis
      by (simp add: classifyStep_def classifyCatch_def)
  qed
qed

lemma classifyStep_total:
  assumes "tableFor c cats" and "OTHER \<in> fst ` set (fileCategories c)"
  shows "\<exists>st'. classifyStep e c (cats, t) f = Inr st'"
proof -
  from pushTo_declared [OF assms] have
    "\<exists>cats'. pushTo cats OTHER x = Some cats'" for x .
  then show ?thesis
    by (auto simp: classifyStep_def classifyCatch_def split: sum.splits option.splits) (metis option.distinct(1))+
qed

subsection \<open>The loop\<close>

lemma classifyLoop_result:
  "tableFor c cats \<Longrightarrow> classifyLoop e c files (cats, t) = Inr (cats', t') \<Longrightarrow>
   tableFor c cats'
   \<and> map fst (ownProps cats') = map fst (ownProps cats)
   \<and> (\<forall>k. map_of (ownProps cats') k =
         map_option (\<lambda>fs. fs @ map (placed e c) (filter (\<lambda>f. assignedCategory e c f = k) files))
           (map_of (ownProps cats) k))
   \<and> protoArray cats' =
         map_option (\<lambda>ps. ps @ map (placed e c) (filter (\<lambda>f. assignedCategory e c f = PROTO) files))
           (protoArray cats)"
proof (induction files arbitrary: cats t)
  case Nil
  then show ?case by (simp add: classifyLoop_def option.map_ident)
next
  case (Cons f files)
  from Cons.prems(2) obtain cats1 t1 where
    step: "classifyStep e c (cats, t) f = Inr (cats1, t1)" and
    rest: "classifyLoop e c files (cats1, t1) = Inr (cats', t')"
    by (auto simp: classifyLoop_def split: sum.splits)
  let ?n = "assignedCategory e c f"
  from classifyStep_result [OF Cons.prems(1) step] have
    push: "pushTo cats ?n (placed e c f) = Some cats1" .
  note eff = pushTo_effect [OF Cons.prems(1) push]
  from Cons.IH [OF eff(1) rest] have
    t': "tableFor c cats'" and
    k': "map fst (ownProps cats') = map fst (ownProps cats1)" and
    m': "\<And>k. map_of (ownProps cats') k =
         map_option (\<lambda>fs. fs @ map (placed e c) (filter (\<lambda>f. assignedCategory e c f = k) files))
           (map_of (ownProps cats1) k)" and
    p': "protoArray cats' =
         map_option (\<lambda>ps. ps @ map (placed e c) (filter (\<lambda>f. assignedCategory e c f = PROTO) files))
           (protoArray cats1)"
    by simp_all
  have m: "map_of (ownProps cats') k =
         map_option (\<lambda>fs. fs @ map (placed e c) (filter (\<lambda>f. assignedCategory e c f = k) (f # files)))
           (map_of (ownProps cats) k)" for k
    unfolding m' eff(3) by (cases "map_of (ownProps cats) k") auto
  have p: "protoArray cats' =
         map_option (\<lambda>ps. ps @ map (placed e c) (filter (\<lambda>f. assignedCategory e c f = PROTO) (f # files)))
           (protoArray cats)"
    unfolding p' eff(4) by (cases "protoArray cats") auto
  from t' k' eff(2) m p show ?case by simp
qed

lemma classifyLoop_total:
  "tableFor c cats \<Longrightarrow> OTHER \<in> fst ` set (fileCategories c) \<Longrightarrow>
   \<exists>cats' t'. classifyLoop e c files (cats, t) = Inr (cats', t')"
proof (induction files arbitrary: cats t)
  case Nil
  show ?case by (simp add: classifyLoop_def)
next
  case (Cons f files)
  from classifyStep_total [OF Cons.prems] obtain cats1 t1 where
    step: "classifyStep e c (cats, t) f = Inr (cats1, t1)" by fastforce
  from classifyStep_result [OF Cons.prems(1) step] have
    "pushTo cats (assignedCategory e c f) (placed e c f) = Some cats1" .
  from pushTo_effect(1) [OF Cons.prems(1) this] have "tableFor c cats1" .
  from Cons.IH [OF this Cons.prems(2), of t1] obtain cats' t' where
    "classifyLoop e c files (cats1, t1) = Inr (cats', t')" by blast
  with step show ?case by (simp add: classifyLoop_def)
qed

subsection \<open>The records held by the categories object\<close>

lemma mset_concat_map: "mset (concat (map g xs)) = (\<Sum>x\<in>#mset xs. mset (g x))"
  by (induction xs) auto

lemma mset_getAllFiles: "mset (getAllFiles cats) = mset (concat (map snd (ownProps cats)))"
  by (simp add: getAllFiles_def objectValues_def mset_concat_map mset_objectEntries)


lemma concat_update:
  "map_of m n = Some fs \<Longrightarrow>
   mset (concat (map snd (AList.update n (fs @ [x]) m))) = mset (concat (map snd m)) + {#x#}"
  by (induction m) auto

lemma pushTo_stored:
  assumes "pushTo cats n x = Some cats'"
  shows "mset (getAllFiles cats') + mset (protoFiles cats')
       = mset (getAllFiles cats) + mset (protoFiles cats) + {#x#}"
  using assms
proof (cases rule: pushTo_cases)
  case (own fs)
  then show ?thesis by (simp add: mset_getAllFiles concat_update protoFiles_def)
next
  case (proto ps)
  then show ?thesis by (simp add: mset_getAllFiles protoFiles_def)
qed

lemma classifyLoop_stored:
  "tableFor c cats \<Longrightarrow> classifyLoop e c files (cats, t) = Inr (cats', t') \<Longrightarrow>
   mset (getAllFiles cats') + mset (protoFiles cats')
     = mset (getAllFiles cats) + mset (protoFiles cats) + mset (map (placed e c) files)"
proof (induction files arbitrary: cats t)
  case Nil
  then show ?case by (simp add: classifyLoop_def)
next
  case (Cons f files)
  from Cons.prems(2) obtain cats1 t1 where
    step: "classifyStep e c (cats, t) f = Inr (cats1, t1)" and
    rest: "classifyLoop e c files (cats1, t1) = Inr (cats', t')"
    by (auto simp: classifyLoop_def split: sum.splits)
  from classifyStep_result [OF Cons.prems(1) step] have
    push: "pushTo cats (assignedCategory e c f) (placed e c f) = Some cats1" .
  from Cons.IH [OF pushTo_effect(1) [OF Cons.prems(1) push] rest] pushTo_stored [OF push]
  show ?case by simp
qed

lemma init_getAllFiles: "getAllFiles (initCategories c) = []"
  by (auto simp: getAllFiles_def set_objectValues dest: init_values)

lemma init_protoFiles: "protoFiles (initCategories c) = []"
  by (simp add: protoFiles_def init_proto)

subsection \<open>The statistics\<close>

lemma inherited_not_empty: "[] \<notin> set inheritedNames"
  by (simp add: inheritedNames_def)

lemma UNKNOWN_plain: "UNKNOWN \<notin> set inheritedNames"
  by (simp add: inheritedNames_def UNKNOWN_def)

lemma orElse_inherited:
  "d \<notin> set inheritedNames \<Longrightarrow> (orElse s d \<in> set inheritedNames) = inheritedLabel s"
  using inherited_not_empty by (auto simp: orElse_def inheritedLabel_def split: option.splits)

lemma objectGet_Inherited:
  "k \<in> set inheritedNames \<Longrightarrow> k \<notin> fst ` set m \<Longrightarrow> objectGet m k = Inherited"
  by (simp add: objectGet_def map_of_None_keys [symmetric])

lemma objectGet_plain: "k \<notin> set inheritedNames \<Longrightarrow> objectGet m k \<noteq> Inherited"
  by (simp add: objectGet_def split: option.splits)

lemma forEach_guarded:
  assumes bad: "\<And>s x. I s \<Longrightarrow> bad x \<Longrightarrow> body s x = Inl TypeError"
    and ok: "\<And>s x. I s \<Longrightarrow> \<not> bad x \<Longrightarrow> \<exists>s'. body s x = Inr s' \<and> I s'"
  shows "I s \<Longrightarrow>
         (if \<exists>x \<in> set xs. bad x then forEach body xs s = Inl TypeError
          else \<exists>s'. forEach body xs s = Inr s' \<and> I s')"
proof (induction xs arbitrary: s)
  case Nil
  then show ?case by simp
next
  case (Cons x xs)
  show ?case
  proof (cases "bad x")
    case True
    with bad [OF Cons.prems] show ?thesis by simp
  next
    case False
    from ok [OF Cons.prems False] obtain s1 where s1: "body s x = Inr s1" "I s1" by blast
    from Cons.IH [OF s1(2)] s1(1) False show ?thesis by simp
  qed
qed

lemma sizeStep_guarded:
  assumes "fst ` set dist \<inter> set inheritedNames = {}"
  shows "inheritedLabel (sizeCategory f) \<Longrightarrow> sizeStep dist f = Inl TypeError"
    and "\<not> inheritedLabel (sizeCategory f) \<Longrightarrow>
         \<exists>dist'. sizeStep dist f = Inr dist' \<and> fst ` set dist' \<inter> set inheritedNames = {}"
proof -
  let ?k = "orElse (sizeCategory f) UNKNOWN"
  {
    assume "inheritedLabel (sizeCategory f)"
    then have k: "?k \<in> set inheritedNames" by (simp add: orElse_inherited UNKNOWN_plain)
    with assms have "?k \<notin> fst ` set dist" by blast
    with k have "objectGet dist ?k = Inherited" by (rule objectGet_Inherited)
    then show "sizeStep dist f = Inl TypeError" by (simp add: sizeStep_def)
  next
    assume "\<not> inheritedLabel (sizeCategory f)"
    then have k: "?k \<notin> set inheritedNames" by (simp add: orElse_inherited UNKNOWN_plain)
    with assms have "fst ` set (AList.update ?k v dist) \<inter> set inheritedNames = {}" for v
      by (simp add: dom_update)
    with objectGet_plain [OF k, of dist]
    show "\<exists>dist'. sizeStep dist f = Inr dist' \<and> fst ` set dist' \<inter> set inheritedNames = {}"
      by (cases "objectGet dist ?k") (simp_all add: sizeStep_def)
  }
qed

lemma timeStep_guarded:
  assumes "fst ` set dist \<inter> set inheritedNames = {}"
  shows "inheritedLabel (relativeAge f) \<Longrightarrow> timeStep dist f = Inl TypeError"
    and "\<not> inheritedLabel (relativeAge f) \<Longrightarrow>
         \<exists>dist'. timeStep dist f = Inr dist' \<and> fst ` set dist' \<inter> set inheritedNames = {}"
proof -
  let ?k = "orElse (relativeAge f) UNKNOWN"
  {
    assume "inheritedLabel (relativeAge f)"
    then have k: "?k \<in> set inheritedNames" by (simp add: orElse_inherited UNKNOWN_plain)
    with assms have "?k \<notin> fst ` set dist" by blast
    with k have "objectGet dist ?k = Inherited" by (rule objectGet_Inherited)
    then show "timeStep dist f = Inl TypeError" by (simp add: timeStep_def)
  next
    assume "\<not> inheritedLabel (relativeAge f)"
    then have k: "?k \<notin> set inheritedNames" by (simp add: orElse_inherited UNKNOWN_plain)
    with assms have "fst ` set (AList.update ?k v dist) \<inter> set inheritedNames = {}" for v
      by (simp add: dom_update)
    with objectGet_plain [OF k, of dist]
    show "\<exists>dist'. timeStep dist f = Inr dist' \<and> fst ` set dist' \<inter> set inheritedNames = {}"
      by (cases "objectGet dist ?k") (simp_all add: timeStep_def)
  }
qed

lemma analyzeSizeDistribution_raises:
  "(\<exists>dist. analyzeSizeDistribution cats = Inr dist)
     = (\<not> (\<exists>f \<in> set (getAllFiles cats). inheritedLabel (sizeCategory f)))"
  using forEach_guarded [of "\<lambda>d. fst ` set d \<inter> set inheritedNames = {}"
      "\<lambda>f. inheritedLabel (sizeCategory f)" sizeStep "[]" "getAllFiles cats"]
    sizeStep_guarded
  by (auto simp: analyzeSizeDistribution_def split: if_splits)

lemma analyzeTimeDistribution_raises:
  "(\<exists>dist. analyzeTimeDistribution cats = Inr dist)
     = (\<not> (\<exists>f \<in> set (getAllFiles cats). inheritedLabel (relativeAge f)))"
  using forEach_guarded [of "\<lambda>d. fst ` set d \<inter> set inheritedNames = {}"
      "\<lambda>f. inheritedLabel (relativeAge f)" timeStep "[]" "getAllFiles cats"]
    timeStep_guarded
  by (auto simp: analyzeTimeDistribution_def split: if_splits)

lemma pushGroup_inherited:
  assumes "fst ` set groups \<inter> set inheritedNames = {}" and "inheritedLabel (hash f)"
  shows "pushGroup groups f = Inl TypeError"
proof -
  from assms(2) obtain h where h: "hash f = Some h" "h \<in> set inheritedNames"
    by (auto simp: inheritedLabel_def split: option.splits)
  with inherited_not_empty have ne: "h \<noteq> []" by auto
  from h(2) assms(1) have "h \<notin> fst ` set groups" by blast
  with h(2) have "objectGet groups h = Inherited" by (rule objectGet_Inherited)
  with h(1) ne show ?thesis by (simp add: pushGroup_def)
qed

lemma pushGroup_plain:
  assumes "\<not> inheritedLabel (hash f)"
  shows "pushGroup groups f = Inr (addToGroup groups f)"
proof (cases "hash f")
  case None
  then show ?thesis by (simp add: pushGroup_def addToGroup_def)
next
  case (Some h)
  with assms have "h \<notin> set inheritedNames" by (simp add: inheritedLabel_def)
  with Some show ?thesis
    by (simp add: pushGroup_def addToGroup_def objectGet_def split: option.splits)
qed

lemma addToGroup_keys:
  assumes "fst ` set groups \<inter> set inheritedNames = {}" and "\<not> inheritedLabel (hash f)"
  shows "fst ` set (addToGroup groups f) \<inter> set inheritedNames = {}"
  using assms
  by (auto simp: addToGroup_def inheritedLabel_def dom_update split: option.splits)

lemma forEach_pushGroup:
  "fst ` set groups \<inter> set inheritedNames = {} \<Longrightarrow>
   forEach pushGroup fs groups =
     (if \<exists>f \<in> set fs. inheritedLabel (hash f) then Inl TypeError
      else Inr (foldl addToGroup groups fs))"
proof (induction fs arbitrary: groups)
  case Nil
  show ?case by simp
next
  case (Cons f fs)
  show ?case
  proof (cases "inheritedLabel (hash f)")
    case True
    with pushGroup_inherited [OF Cons.prems] show ?thesis by simp
  next
    case False
    from Cons.IH [OF addToGroup_keys [OF Cons.prems False]] False
    show ?thesis by (simp add: pushGroup_plain)
  qed
qed

lemma hashGroups_groupsOf:
  "hashGroups fs =
     (if \<exists>f \<in> set fs. inheritedLabel (hash f) then Inl TypeError else Inr (groupsOf fs))"
  by (simp add: hashGroups_def groupsOf_def forEach_pushGroup)

lemma findDuplicateFiles_groupsOf:
  "findDuplicateFiles cats =
     (if \<exists>f \<in> set (getAllFiles cats). inheritedLabel (hash f) then Inl TypeError
      else Inr (take 10 (filter (\<lambda>group. length group > 1) (objectValues (groupsOf (getAllFiles cats))))))"
  by (simp add: findDuplicateFiles_def hashGroups_groupsOf)

lemma generateStatistics_Inr:
  assumes "generateStatistics cats = Inr stats"
  shows "findDuplicateFiles cats = Inr (duplicateFiles stats)"
    and "largestFiles stats = findLargestFiles cats"
    and "oldestFiles stats = findOldestFiles cats"
    and "newestFiles stats = findNewestFiles cats"
  using assms by (auto simp: generateStatistics_def split: sum.splits)

lemma generateStatistics_returns:
  assumes "\<forall>f \<in> set (getAllFiles cats). plainLabels f"
  shows "\<exists>stats. generateStatistics cats = Inr stats"
proof -
  from assms analyzeSizeDistribution_raises [of cats] obtain sizes where
    "analyzeSizeDistribution cats = Inr sizes" by (auto simp: plainLabels_def)
  moreover from assms analyzeTimeDistribution_raises [of cats] obtain ages where
    "analyzeTimeDistribution cats = Inr ages" by (auto simp: plainLabels_def)
  moreover from assms have "\<exists>groups. findDuplicateFiles cats = Inr groups"
    by (auto simp: findDuplicateFiles_groupsOf plainLabels_def)
  ultimately show ?thesis by (auto simp: generateStatistics_def)
qed

subsection \<open>The result\<close>

lemma classifyFiles_Inr:
  assumes "classifyFiles e cfg files = Inr r"
  obtains c t where "cfg = Some c"
    and "classifyLoop e c files (initCategories c, 0) = Inr (categories r, t)"
    and "generateStatistics (categories r) = Inr (statistics r)"
    and "summary r = generateSummary (categories r)"
    and "totalFiles r = length files"
  using assms by (auto simp: classifyFiles_def split: option.splits sum.splits prod.splits)

lemma classifyFiles_stored:
  assumes "classifyFiles e (Some c) files = Inr r"
  shows "mset (getAllFiles (categories r)) + mset (protoFiles (categories r))
       = mset (map (placed e c) files)"
proof -
  from assms obtain t where
    "classifyLoop e c files (initCategories c, 0) = Inr (categories r, t)"
    by (auto elim: classifyFiles_Inr)
  from classifyLoop_stored [OF init_tableFor this] show ?thesis
    by (simp add: init_getAllFiles init_protoFiles)
qed

lemma classifyFiles_table:
  assumes "classifyFiles e (Some c) files = Inr r"
  shows "tableFor c (categories r)"
    and "map fst (ownProps (categories r)) = map fst (ownProps (initCategories c))"
    and "n \<in> fst ` set (fileCategories c) \<Longrightarrow> n \<noteq> PROTO \<Longrightarrow>
         map_of (ownProps (categories r)) n
           = Some (map (placed e c) (filter (\<lambda>f. assignedCategory e c f = n) files))"
    and "PROTO \<in> fst ` set (fileCategories c) \<Longrightarrow>
         protoArray (categories r)
           = Some (map (placed e c) (filter (\<lambda>f. assignedCategory e c f = PROTO) files))"
    and "PROTO \<notin> fst ` set (fileCategories c) \<Longrightarrow> protoArray (categories r) = None"
proof -
  from assms obtain t where
    "classifyLoop e c files (initCategories c, 0) = Inr (categories r, t)"
    by (auto elim: classifyFiles_Inr)
  note res = classifyLoop_result [OF init_tableFor this]
  from res show "tableFor c (categories r)"
    and "map fst (ownProps (categories r)) = map fst (ownProps (initCategories c))"
    by simp_all
  from res show "n \<in> fst ` set (fileCategories c) \<Longrightarrow> n \<noteq> PROTO \<Longrightarrow>
         map_of (ownProps (categories r)) n
           = Some (map (placed e c) (filter (\<lambda>f. assignedCategory e c f = n) files))"
    by (simp add: init_map_of)
  from res show "PROTO \<in> fst ` set (fileCategories c) \<Longrightarrow>
         protoArray (categories r)
           = Some (map (placed e c) (filter (\<lambda>f. assignedCategory e c f = PROTO) files))"
    by (simp add: init_proto)
  from res show "PROTO \<notin> fst ` set (fileCategories c) \<Longrightarrow> protoArray (categories r) = None"
    by (simp add: init_proto)
qed


lemma plainLabels_placed [simp]: "plainLabels (placed e c f) = plainLabels f"
  by (simp add: plainLabels_def placed_def)

lemma classifyFiles_returns:
  assumes "OTHER \<in> fst ` set (fileCategories c)" and "\<forall>f \<in> set files. plainLabels f"
  shows "\<exists>r. classifyFiles e (Some c) files = Inr r"
proof -
  from classifyLoop_total [OF init_tableFor assms(1)] obtain cats t where
    loop: "classifyLoop e c files (initCategories c, 0) = Inr (cats, t)" by blast
  from classifyLoop_stored [OF init_tableFor loop] have
    "mset (getAllFiles cats) + mset (protoFiles cats) = mset (map (placed e c) files)"
    by (simp add: init_getAllFiles init_protoFiles)
  then have "set (getAllFiles cats) \<subseteq> set (map (placed e c) files)"
    by (metis mset_subset_eq_add_left set_mset_mono set_mset_mset)
  with assms(2) have "\<forall>f \<in> set (getAllFiles cats). plainLabels f" by auto
  from generateStatistics_returns [OF this] obtain stats where
    "generateStatistics cats = Inr stats" ..
  with loop show ?thesis by (simp add: classifyFiles_def)
qed




lemma shipped_has_other: "OTHER \<in> fst ` set (fileCategories shippedConfig)"
  by (simp add: shippedConfig_def shippedFileCategories_def)


lemma shipped_no_proto: "PROTO \<notin> fst ` set (fileCategories shippedConfig)"
  by (simp add: shippedConfig_def shippedFileCategories_def category_defs PROTO_def)




lemma other_holds_failures:
  assumes "classifyLoop e c files (initCategories c, 0) = Inr (cats, t)"
    and "OTHER \<in> fst ` set (fileCategories c)"
    and "f \<in> set files" and "classifyFile e c f = Inl err"
  shows "\<exists>fs. map_of (ownProps cats) OTHER = Some fs \<and> f\<lparr>category := Some OTHER\<rparr> \<in> set fs"
proof -
  from classifyLoop_result [OF init_tableFor assms(1)] assms(2) have
    "map_of (ownProps cats) OTHER
       = Some (map (placed e c) (filter (\<lambda>f. assignedCategory e c f = OTHER) files))"
    by (simp add: init_map_of OTHER_not_PROTO)
  moreover from assms(4) have a: "assignedCategory e c f = OTHER" by (simp add: assignedCategory_def)
  then have "placed e c f = f\<lparr>category := Some OTHER\<rparr>" by (simp add: placed_def)
  with assms(3) a have "f\<lparr>category := Some OTHER\<rparr>
      \<in> set (map (placed e c) (filter (\<lambda>f. assignedCategory e c f = OTHER) files))"
    by force
  ultimately show ?thesis by simp
qed

text \<open>
  C9, as stated: classification never raises to the caller. The handler of the loop body
  pushes the record to the category \<open>OTHER\<close>; with a policy that does not declare that
  category the push in the handler raises, outside any handler of the loop, and
  \<open>classifyFiles\<close> raises to its caller. It also raises when no policy is loaded.
\<close>

theorem missing_other_category_raises:
  "map fst (fileCategories noOtherConfig) = [DOCUMENTS]
   \<and> classifyFile sampleEnv noOtherConfig (basicFile ''/r/d.xyz'' ''.xyz'' 1024 4 4) = Inr OTHER
   \<and> classifyFiles sampleEnv (Some noOtherConfig) [basicFile ''/r/d.xyz'' ''.xyz'' 1024 4 4] = Inl TypeError
   \<and> classifyFiles sampleEnv None [basicFile ''/r/d.xyz'' ''.xyz'' 1024 4 4] = Inl TypeError"
  by code_simp

text \<open>
  C9, amended. With a loaded policy that declares the category \<open>OTHER\<close>, the loop over
  the records raises nothing: it ends with a categories object in which every record on
  which \<open>classifyFile\<close> raised is in the sequence of \<open>OTHER\<close>, with its category set to
  \<open>OTHER\<close>. \<open>classifyFiles\<close> then returns a result with these categories when no record
  carries a hash, size category or relative age that names a property inherited from
  \<open>Object.prototype\<close>.
\<close>

theorem classification_failure_goes_to_other:
  assumes "OTHER \<in> fst ` set (fileCategories c)"
  shows "\<exists>cats t. classifyLoop e c files (initCategories c, 0) = Inr (cats, t)
           \<and> (\<forall>f \<in> set files. \<forall>err. classifyFile e c f = Inl err \<longrightarrow>
                 (\<exists>fs. map_of (ownProps cats) OTHER = Some fs \<and> f\<lparr>category := Some OTHER\<rparr> \<in> set fs))
           \<and> ((\<forall>f \<in> set files. plainLabels f) \<longrightarrow>
                 (\<exists>r. classifyFiles e (Some c) files = Inr r \<and> categories r = cats))"
proof -
  from classifyLoop_total [OF init_tableFor assms] obtain cats t where
    loop: "classifyLoop e c files (initCategories c, 0) = Inr (cats, t)" by blast
  have fail: "\<exists>fs. map_of (ownProps cats) OTHER = Some fs \<and> f\<lparr>category := Some OTHER\<rparr> \<in> set fs"
    if "f \<in> set files" "classifyFile e c f = Inl err" for f err
    using other_holds_failures [OF loop assms that] .
  have ret: "\<exists>r. classifyFiles e (Some c) files = Inr r \<and> categories r = cats"
    if "\<forall>f \<in> set files. plainLabels f"
  proof -
    from classifyFiles_returns [OF assms that] obtain r where
      r: "classifyFiles e (Some c) files = Inr r" ..
    with loop have "categories r = cats" by (auto elim: classifyFiles_Inr)
    with r show ?thesis by simp
  qed
  from loop fail ret show ?thesis by blast
qed

theorem classification_failure_goes_to_other_witness:
  "OTHER \<in> fst ` set (fileCategories brokenConfig)
   \<and> classifyFile sampleEnv brokenConfig (basicFile ''/r/a.pdf'' ''.pdf'' 2048 1 1) = Inl TypeError
   \<and> plainLabels (basicFile ''/r/a.pdf'' ''.pdf'' 2048 1 1)
   \<and> (\<exists>r. classifyFiles sampleEnv (Some brokenConfig) [basicFile ''/r/a.pdf'' ''.pdf'' 2048 1 1] = Inr r
         \<and> (\<exists>fs. map_of (ownProps (categories r)) OTHER = Some fs
               \<and> (basicFile ''/r/a.pdf'' ''.pdf'' 2048 1 1)\<lparr>category := Some OTHER\<rparr> \<in> set fs))"
proof -
  let ?f = "basicFile ''/r/a.pdf'' ''.pdf'' 2048 1 1"
  have h: "OTHER \<in> fst ` set (fileCategories brokenConfig)"
    by (simp add: brokenConfig_def policy_def)
  have e: "classifyFile sampleEnv brokenConfig ?f = Inl TypeError"
    by code_simp
  have p: "plainLabels ?f"
    by (simp add: basicFile_def plainLabels_def inheritedLabel_def)
  from classification_failure_goes_to_other [OF h, of sampleEnv "[?f]"] e p
  have "\<exists>r. classifyFiles sampleEnv (Some brokenConfig) [?f] = Inr r
         \<and> (\<exists>fs. map_of (ownProps (categories r)) OTHER = Some fs \<and> ?f\<lparr>category := Some OTHER\<rparr> \<in> set fs)"
    by auto
  with h e p show ?thesis by blast
qed

section \<open>Duplicate groups\<close>

lemma addToGroup_map_of:
  "map_of (addToGroup m f) k =
     (if hash f = Some k \<and> k \<noteq> []
      then Some ((case map_of m k of None \<Rightarrow> [] | Some g \<Rightarrow> g) @ [f])
      else map_of m k)"
  by (auto simp: addToGroup_def update_conv' split: option.splits)

lemma addToGroup_distinct: "distinct (map fst m) \<Longrightarrow> distinct (map fst (addToGroup m f))"
  by (auto simp: addToGroup_def distinct_update split: option.splits)

lemma foldl_addToGroup_distinct:
  "distinct (map fst m) \<Longrightarrow> distinct (map fst (foldl addToGroup m fs))"
  by (induction fs arbitrary: m) (auto simp: addToGroup_distinct)

lemma foldl_addToGroup_map_of:
  "map_of (foldl addToGroup m fs) k =
     (if k \<noteq> [] \<and> Some k \<in> hash ` set fs
      then Some ((case map_of m k of None \<Rightarrow> [] | Some g \<Rightarrow> g) @ filter (\<lambda>f. hash f = Some k) fs)
      else map_of m k)"
proof (induction fs arbitrary: m)
  case Nil
  show ?case by simp
next
  case (Cons f fs)
  show ?case
    by (cases "hash f = Some k")
      (auto simp: Cons.IH addToGroup_map_of filter_empty_conv empty_filter_conv image_iff
        split: option.splits)
qed

lemma groupsOf_map_of:
  "map_of (groupsOf fs) k =
     (if k \<noteq> [] \<and> Some k \<in> hash ` set fs then Some (filter (\<lambda>f. hash f = Some k) fs) else None)"
  by (simp add: groupsOf_def foldl_addToGroup_map_of)

lemma groupsOf_distinct: "distinct (map fst (groupsOf fs))"
  by (simp add: groupsOf_def foldl_addToGroup_distinct)

lemma groupsOf_entry:
  "(k, g) \<in> set (groupsOf fs) \<longleftrightarrow>
     k \<noteq> [] \<and> Some k \<in> hash ` set fs \<and> g = filter (\<lambda>f. hash f = Some k) fs"
proof -
  have "(k, g) \<in> set (groupsOf fs) \<longleftrightarrow> map_of (groupsOf fs) k = Some g"
    using groupsOf_distinct by (metis map_of_is_SomeI map_of_SomeD)
  then show ?thesis by (auto simp: groupsOf_map_of)
qed

lemma group_iff:
  "g \<in> set (objectValues (groupsOf fs)) \<longleftrightarrow>
     (\<exists>k. k \<noteq> [] \<and> Some k \<in> hash ` set fs \<and> g = filter (\<lambda>f. hash f = Some k) fs)"
proof -
  have "g \<in> set (objectValues (groupsOf fs)) \<longleftrightarrow> (\<exists>k. (k, g) \<in> set (groupsOf fs))"
    by (force simp: set_objectValues)
  then show ?thesis by (simp add: groupsOf_entry)
qed

lemma length_filter_count:
  "length (filter (\<lambda>f. h f = v) fs) = count (mset (map h fs)) v"
  by (induction fs) auto

lemma distinct_key_once:
  "distinct (map g xs) \<Longrightarrow> length (filter (\<lambda>x. g x = k) xs) \<le> 1"
proof (induction xs)
  case Nil
  show ?case by simp
next
  case (Cons x xs)
  show ?case
  proof (cases "g x = k")
    case True
    with Cons.prems have "\<forall>y \<in> set xs. g y \<noteq> k"
      by (metis distinct.simps(2) image_eqI list.simps(9) set_map)
    then have "filter (\<lambda>y. g y = k) xs = []"
      by (simp add: filter_empty_conv)
    with True show ?thesis by simp
  next
    case False
    with Cons show ?thesis by simp
  qed
qed

lemma distinct_keys_hash_once:
  assumes "distinct (map dedupKey fs)" and "k \<noteq> []"
  shows "count (mset (map hash fs)) (Some k) \<le> 1"
proof -
  have "filter (\<lambda>f. hash f = Some k) fs = filter (\<lambda>f. hash f = Some k) (filter (\<lambda>f. dedupKey f = k) fs)"
    using assms(2) by (auto simp: dedupKey_def intro!: filter_cong)
  then have "length (filter (\<lambda>f. hash f = Some k) fs) \<le> length (filter (\<lambda>f. dedupKey f = k) fs)"
    by (metis length_filter_le)
  also have "\<dots> \<le> 1" using assms(1) by (rule distinct_key_once)
  finally show ?thesis by (simp add: length_filter_count)
qed

lemma no_shared_hash_no_groups:
  assumes "\<And>k. k \<noteq> [] \<Longrightarrow> count (mset (map hash fs)) (Some k) \<le> 1"
  shows "filter (\<lambda>group. length group > 1) (objectValues (groupsOf fs)) = []"
proof -
  have "\<not> 1 < length g" if "g \<in> set (objectValues (groupsOf fs))" for g
  proof -
    from that obtain k where "k \<noteq> []" and "g = filter (\<lambda>f. hash f = Some k) fs"
      by (auto simp: group_iff)
    with assms [of k] show ?thesis by (simp add: length_filter_count)
  qed
  then show ?thesis by (simp add: filter_empty_conv)
qed


lemma hash_placed [simp]: "hash (placed e c f) = hash f"
  by (simp add: placed_def)

lemma dedupKey_placed [simp]: "dedupKey (placed e c f) = dedupKey f"
  by (simp add: placed_def dedupKey_def split: option.splits)

lemma classifyFiles_all_placed:
  assumes "classifyFiles e (Some c) files = Inr r" and "PROTO \<notin> fst ` set (fileCategories c)"
  shows "mset (getAllFiles (categories r)) = mset (map (placed e c) files)"
  using classifyFiles_stored [OF assms(1)] classifyFiles_table(5) [OF assms]
  by (simp add: protoFiles_def)

lemma classifyFiles_hash_counts:
  assumes "classifyFiles e cfg files = Inr r"
  shows "count (mset (map hash (getAllFiles (categories r)))) h \<le> count (mset (map hash files)) h"
proof -
  from assms obtain c where c: "cfg = Some c" by (auto elim: classifyFiles_Inr)
  from classifyFiles_stored [OF assms [unfolded c]] have
    "mset (getAllFiles (categories r)) \<subseteq># mset (map (placed e c) files)"
    by (metis mset_subset_eq_add_left)
  then have "image_mset hash (mset (getAllFiles (categories r)))
      \<subseteq># image_mset hash (mset (map (placed e c) files))"
    by (rule image_mset_subseteq_mono)
  then have "mset (map hash (getAllFiles (categories r))) \<subseteq># mset (map hash files)"
    by (simp add: multiset.map_comp comp_def)
  then show ?thesis by (rule mset_subset_eq_count)
qed

lemma classifyFiles_duplicateFiles:
  assumes "classifyFiles e cfg files = Inr r"
  shows "\<not> (\<exists>f \<in> set (getAllFiles (categories r)). inheritedLabel (hash f))"
    and "duplicateFiles (statistics r)
       = take 10 (filter (\<lambda>group. length group > 1)
                    (objectValues (groupsOf (getAllFiles (categories r)))))"
proof -
  from assms have "generateStatistics (categories r) = Inr (statistics r)"
    by (auto elim: classifyFiles_Inr)
  then have "findDuplicateFiles (categories r) = Inr (duplicateFiles (statistics r))"
    by (rule generateStatistics_Inr)
  then show "\<not> (\<exists>f \<in> set (getAllFiles (categories r)). inheritedLabel (hash f))"
    and "duplicateFiles (statistics r)
       = take 10 (filter (\<lambda>group. length group > 1)
                    (objectValues (groupsOf (getAllFiles (categories r)))))"
    by (auto simp: findDuplicateFiles_groupsOf split: if_splits)
qed

lemma distinct_keys_no_duplicates:
  assumes "distinct (map dedupKey files)" and "classifyFiles e cfg files = Inr r"
  shows "duplicateFiles (statistics r) = []"
proof -
  have "filter (\<lambda>group. length group > 1) (objectValues (groupsOf (getAllFiles (categories r)))) = []"
  proof (rule no_shared_hash_no_groups)
    fix k :: string assume k: "k \<noteq> []"
    from classifyFiles_hash_counts [OF assms(2)]
    have "count (mset (map hash (getAllFiles (categories r)))) (Some k) \<le> count (mset (map hash files)) (Some k)" .
    also from assms(1) k have "\<dots> \<le> 1" by (rule distinct_keys_hash_once)
    finally show "count (mset (map hash (getAllFiles (categories r)))) (Some k) \<le> 1" .
  qed
  then show ?thesis by (simp add: classifyFiles_duplicateFiles(2) [OF assms(2)])
qed

lemma samples_plain: "plainLabels dupA" "plainLabels plainB" "plainLabels dupA2"
  by (simp_all add: sample_defs plainLabels_def inheritedLabel_def inheritedNames_def)



lemma hash_eTxt: "hash eTxt = Some ''-i5xfug''"
  by (simp add: eTxt_def getDetailedFileInfo_def calculateFileHash_def twinEnv_def basicFile_def
      hashInput_def hashString_def hashStep_def intToString_def natToString.simps digitChar_def)

lemma hash_fTxt: "hash fTxt = Some ''-j9tml5''"
  by (simp add: fTxt_def getDetailedFileInfo_def calculateFileHash_def twinEnv_def basicFile_def
      hashInput_def hashString_def hashStep_def intToString_def natToString.simps digitChar_def)

lemma size_4096: "getSizeCategory (Some shippedConfig) 4096 = SMALL"
  by (simp add: getSizeCategory_def shipped_size_entries)
    (simp add: shippedConfig_def shippedSizeCategories_def bucketMatches_def label_defs)

lemma labels_twins:
  "sizeCategory eTxt = Some SMALL" "relativeAge eTxt = Some TODAY"
  "sizeCategory fTxt = Some SMALL" "relativeAge fTxt = Some TODAY"
  by (simp_all add: eTxt_def fTxt_def getDetailedFileInfo_def basicFile_def size_4096
      getRelativeAge_def twinEnv_def)

lemma twins_plain: "plainLabels eTxt" "plainLabels fTxt"
  by (simp_all add: plainLabels_def inheritedLabel_def hash_eTxt hash_fTxt labels_twins
      inheritedNames_def SMALL_def TODAY_def)

text \<open>
  C1, as stated: two records with the same size and the same modification time under
  different paths are reported together in one duplicate group. The scanner gives the two
  files below different hashes, since the path is part of the hash input, and
  \<open>findDuplicateFiles\<close> groups by the hash: no group is reported.
\<close>

theorem same_size_and_mtime_not_grouped:
  "fsize eTxt = fsize fTxt
   \<and> modifiedTime eTxt = modifiedTime fTxt
   \<and> path eTxt \<noteq> path fTxt
   \<and> map_sum id (duplicateFiles \<circ> statistics) (classifyFiles twinEnv (Some shippedConfig) [eTxt, fTxt]) = Inr []"
proof -
  have d: "distinct (map dedupKey [eTxt, fTxt])"
    by (simp add: dedupKey_def hash_eTxt hash_fTxt)
  from classifyFiles_returns [OF shipped_has_other, of "[eTxt, fTxt]" twinEnv] twins_plain
  obtain r where r: "classifyFiles twinEnv (Some shippedConfig) [eTxt, fTxt] = Inr r"
    by auto
  from distinct_keys_no_duplicates [OF d r] r
  have "map_sum id (duplicateFiles \<circ> statistics) (classifyFiles twinEnv (Some shippedConfig) [eTxt, fTxt]) = Inr []"
    by simp
  then show ?thesis
    by (simp add: eTxt_def fTxt_def getDetailedFileInfo_def basicFile_def)
qed

lemma filter_eq_singleton:
  "distinct xs \<Longrightarrow> x \<in> set xs \<Longrightarrow> filter (\<lambda>y. y = x) xs = [x]"
  by (induction xs) (auto simp: filter_empty_conv)

lemma group_nonempty_key:
  assumes "filter (\<lambda>f. hash f = Some k) fs = filter (\<lambda>f. hash f = Some k') fs"
    and "filter (\<lambda>f. hash f = Some k) fs \<noteq> []"
  shows "k = k'"
proof -
  from assms(2) obtain f where f: "f \<in> set (filter (\<lambda>f. hash f = Some k) fs)"
    by (cases "filter (\<lambda>f. hash f = Some k) fs") auto
  then have "hash f = Some k" by simp
  moreover from f have "f \<in> set (filter (\<lambda>f. hash f = Some k') fs)"
    by (simp only: assms(1))
  then have "hash f = Some k'" by simp
  ultimately show ?thesis by simp
qed

lemma groupsOf_values_distinct: "distinct (map snd (groupsOf fs))"
proof -
  have "inj_on snd (set (groupsOf fs))"
  proof (rule inj_onI)
    fix p q assume p: "p \<in> set (groupsOf fs)" and q: "q \<in> set (groupsOf fs)" and e: "snd p = snd q"
    from p have p': "Some (fst p) \<in> hash ` set fs" "snd p = filter (\<lambda>f. hash f = Some (fst p)) fs"
      using groupsOf_entry [of "fst p" "snd p" fs] by auto
    from q have q': "snd q = filter (\<lambda>f. hash f = Some (fst q)) fs"
      using groupsOf_entry [of "fst q" "snd q" fs] by auto
    from p'(1) have "filter (\<lambda>f. hash f = Some (fst p)) fs \<noteq> []"
      by (auto simp: filter_empty_conv)
    with p'(2) q' e have "fst p = fst q" by (intro group_nonempty_key [of _ fs]) auto
    with e show "p = q" by (simp add: prod_eq_iff)
  qed
  moreover have "distinct (groupsOf fs)"
    using groupsOf_distinct [of fs] by (simp add: distinct_map)
  ultimately show ?thesis by (simp add: distinct_map)
qed

lemma objectValues_distinct: "distinct (objectValues (groupsOf fs))"
proof -
  have "mset (objectValues (groupsOf fs)) = mset (map snd (groupsOf fs))"
    by (simp add: objectValues_def mset_objectEntries)
  then show ?thesis
    using groupsOf_values_distinct [of fs] by (metis mset_eq_imp_distinct_iff)
qed

lemma duplicated_count:
  "length (filter (\<lambda>group. length group > 1) (objectValues (groupsOf fs)))
     = card {k. k \<noteq> [] \<and> 2 \<le> length (filter (\<lambda>f. hash f = Some k) fs)}"
proof -
  let ?F = "\<lambda>k. filter (\<lambda>f. hash f = Some k) fs"
  let ?K = "{k. k \<noteq> [] \<and> 2 \<le> length (?F k)}"
  let ?D = "filter (\<lambda>group. length group > 1) (objectValues (groupsOf fs))"
  have "distinct ?D" using objectValues_distinct by simp
  then have "length ?D = card (set ?D)" by (rule distinct_card [symmetric])
  moreover have "set ?D = ?F ` ?K"
  proof (intro set_eqI iffI)
    fix g assume "g \<in> set ?D"
    then obtain k where "k \<noteq> []" "g = ?F k" "1 < length g"
      by (auto simp: group_iff)
    then show "g \<in> ?F ` ?K" by auto
  next
    fix g assume "g \<in> ?F ` ?K"
    then obtain k where k: "k \<noteq> []" "2 \<le> length (?F k)" "g = ?F k" by auto
    from k(2) have "?F k \<noteq> []" by auto
    then have "Some k \<in> hash ` set fs"
      by (auto simp: filter_empty_conv image_iff) metis
    with k show "g \<in> set ?D" by (auto simp: group_iff)
  qed
  moreover have "inj_on ?F ?K"
  proof (rule inj_onI)
    fix k k' assume "k \<in> ?K" "k' \<in> ?K" "?F k = ?F k'"
    then show "k = k'" by (intro group_nonempty_key [of k fs k']) auto
  qed
  ultimately show ?thesis by (simp add: card_image)
qed

lemma two_positions:
  assumes "i < length xs" "j < length xs" "i \<noteq> j" "P (xs ! i)" "P (xs ! j)"
  shows "2 \<le> length (filter P xs)"
proof -
  have "{i, j} \<subseteq> {n. n < length xs \<and> P (xs ! n)}" using assms by auto
  then have "card {i, j} \<le> card {n. n < length xs \<and> P (xs ! n)}"
    by (intro card_mono) auto
  with assms(3) show ?thesis by (simp add: length_filter_conv_card)
qed

lemma filter_hash_length:
  assumes "mset xs = mset (map (placed e c) ys)"
  shows "length (filter (\<lambda>f. hash f = Some k) xs) = length (filter (\<lambda>f. hash f = Some k) ys)"
proof -
  have "mset (map hash xs) = mset (map hash ys)"
    using arg_cong [OF assms, of "image_mset hash"] by (simp add: multiset.map_comp comp_def)
  then show ?thesis by (simp add: length_filter_count)
qed

text \<open>
  C1, amended. In a result that \<open>classifyFiles\<close> returns for a policy that names no
  category \<open>__proto__\<close>, the duplicate groups are formed by equality of the non-empty hash:
  at most ten groups are reported, no group twice, each with at least two members and each
  the list of all classified records that carry one hash. Two records at different positions
  of the input list that carry the same non-empty hash are together in exactly one reported
  group, the group of that hash, provided at most ten hashes are shared by two or more
  records of the input.
\<close>

theorem duplicate_groups_share_a_hash:
  assumes "classifyFiles e (Some c) files = Inr r"
    and "PROTO \<notin> fst ` set (fileCategories c)"
  shows "length (duplicateFiles (statistics r)) \<le> 10
   \<and> distinct (duplicateFiles (statistics r))
   \<and> mset (getAllFiles (categories r))
       = mset (map (\<lambda>f. f\<lparr>category := Some (assignedCategory e c f)\<rparr>) files)
   \<and> (\<forall>g \<in> set (duplicateFiles (statistics r)).
         2 \<le> length g
         \<and> (\<exists>h. h \<noteq> [] \<and> g = filter (\<lambda>f. hash f = Some h) (getAllFiles (categories r))))
   \<and> (\<forall>i j h.
         i < length files \<and> j < length files \<and> i \<noteq> j \<and> h \<noteq> []
         \<and> hash (files ! i) = Some h \<and> hash (files ! j) = Some h
         \<and> card {k. k \<noteq> [] \<and> 2 \<le> length (filter (\<lambda>f. hash f = Some k) files)} \<le> 10
         \<longrightarrow> filter (\<lambda>g. (files ! i)\<lparr>category := Some (assignedCategory e c (files ! i))\<rparr> \<in> set g
                        \<and> (files ! j)\<lparr>category := Some (assignedCategory e c (files ! j))\<rparr> \<in> set g)
               (duplicateFiles (statistics r))
             = [filter (\<lambda>f. hash f = Some h) (getAllFiles (categories r))])"
proof -
  let ?all = "getAllFiles (categories r)"
  let ?F = "\<lambda>k. filter (\<lambda>f. hash f = Some k) ?all"
  let ?D = "filter (\<lambda>group. length group > 1) (objectValues (groupsOf ?all))"
  let ?dups = "duplicateFiles (statistics r)"
  have fd: "?dups = take 10 ?D" by (rule classifyFiles_duplicateFiles(2) [OF assms(1)])
  have all: "mset ?all = mset (map (placed e c) files)"
    by (rule classifyFiles_all_placed [OF assms])
  have len: "length (?F k) = length (filter (\<lambda>f. hash f = Some k) files)" for k
    using all by (rule filter_hash_length)
  have dD: "distinct ?D" using objectValues_distinct by simp
  have 1: "length ?dups \<le> 10" by (simp add: fd)
  have 2: "distinct ?dups" using dD by (simp add: fd)
  have 3: "mset ?all = mset (map (\<lambda>f. f\<lparr>category := Some (assignedCategory e c f)\<rparr>) files)"
    using all by (simp add: placed_def [abs_def])
  have inD: "2 \<le> length g \<and> (\<exists>h. h \<noteq> [] \<and> g = ?F h)" if "g \<in> set ?D" for g
    using that by (auto simp: group_iff)
  have 4: "\<forall>g \<in> set ?dups. 2 \<le> length g \<and> (\<exists>h. h \<noteq> [] \<and> g = ?F h)"
    using inD by (auto simp: fd dest: in_set_takeD)
  have 5: "filter (\<lambda>g. placed e c (files ! i) \<in> set g \<and> placed e c (files ! j) \<in> set g) ?dups = [?F h]"
    if a: "i < length files \<and> j < length files \<and> i \<noteq> j \<and> h \<noteq> []
         \<and> hash (files ! i) = Some h \<and> hash (files ! j) = Some h
         \<and> card {k. k \<noteq> [] \<and> 2 \<le> length (filter (\<lambda>f. hash f = Some k) files)} \<le> 10" for i j h
  proof -
    from a have "length ?D \<le> 10" unfolding duplicated_count len by blast
    then have whole: "?dups = ?D" by (simp add: fd)
    from a have "2 \<le> length (filter (\<lambda>f. hash f = Some h) files)"
      by (intro two_positions [of i files j]) auto
    then have two: "2 \<le> length (?F h)" by (simp add: len)
    have mem: "placed e c (files ! n) \<in> set ?all" if "n < length files" for n
    proof -
      from that have "placed e c (files ! n) \<in> set (map (placed e c) files)" by simp
      then show ?thesis using all by (metis set_mset_mset)
    qed
    from a mem have pi: "placed e c (files ! i) \<in> set ?all" and pj: "placed e c (files ! j) \<in> set ?all"
      by simp_all
    from a have hi: "hash (placed e c (files ! i)) = Some h" by simp
    have "Some h \<in> hash ` set ?all"
      using image_eqI [of "Some h" hash "placed e c (files ! i)", OF hi [symmetric] pi] .
    with a two have gm: "?F h \<in> set ?D" by (auto simp: group_iff)
    have "filter (\<lambda>g. placed e c (files ! i) \<in> set g \<and> placed e c (files ! j) \<in> set g) ?D
        = filter (\<lambda>g. g = ?F h) ?D"
    proof (rule filter_cong [OF refl])
      fix g assume "g \<in> set ?D"
      then obtain k where k: "g = ?F k" using inD by blast
      show "(placed e c (files ! i) \<in> set g \<and> placed e c (files ! j) \<in> set g) = (g = ?F h)"
      proof
        assume "placed e c (files ! i) \<in> set g \<and> placed e c (files ! j) \<in> set g"
        with k have "hash (placed e c (files ! i)) = Some k" by simp
        with a have "k = h" by simp
        with k show "g = ?F h" by simp
      next
        assume "g = ?F h"
        with pi pj a show "placed e c (files ! i) \<in> set g \<and> placed e c (files ! j) \<in> set g"
          by simp
      qed
    qed
    also have "\<dots> = [?F h]" using dD gm by (rule filter_eq_singleton)
    finally show ?thesis by (simp add: whole)
  qed
  have 6: "\<forall>i j h.
         i < length files \<and> j < length files \<and> i \<noteq> j \<and> h \<noteq> []
         \<and> hash (files ! i) = Some h \<and> hash (files ! j) = Some h
         \<and> card {k. k \<noteq> [] \<and> 2 \<le> length (filter (\<lambda>f. hash f = Some k) files)} \<le> 10
         \<longrightarrow> filter (\<lambda>g. (files ! i)\<lparr>category := Some (assignedCategory e c (files ! i))\<rparr> \<in> set g
                        \<and> (files ! j)\<lparr>category := Some (assignedCategory e c (files ! j))\<rparr> \<in> set g)
               ?dups
             = [?F h]"
    by (intro allI impI) (rule 5 [unfolded placed_def])
  show ?thesis by (intro conjI 1 2 3 4 6)
qed

theorem duplicate_groups_share_a_hash_witness:
  "PROTO \<notin> fst ` set (fileCategories shippedConfig)
   \<and> hash dupA = Some ''h1'' \<and> hash dupA2 = Some ''h1''
   \<and> card {k. k \<noteq> [] \<and> 2 \<le> length (filter (\<lambda>f. hash f = Some k) [dupA, plainB, dupA2])} \<le> 10
   \<and> assignedCategory sampleEnv shippedConfig dupA = DOCUMENTS
   \<and> assignedCategory sampleEnv shippedConfig dupA2 = DOCUMENTS
   \<and> (\<exists>r. classifyFiles sampleEnv (Some shippedConfig) [dupA, plainB, dupA2] = Inr r
         \<and> filter (\<lambda>g. dupA\<lparr>category := Some DOCUMENTS\<rparr> \<in> set g \<and> dupA2\<lparr>category := Some DOCUMENTS\<rparr> \<in> set g)
             (duplicateFiles (statistics r))
           = [filter (\<lambda>f. hash f = Some ''h1'') (getAllFiles (categories r))]
         \<and> list_all (\<lambda>g. 2 \<le> length g) (duplicateFiles (statistics r)))"
proof -
  let ?files = "[dupA, plainB, dupA2]"
  have h: "hash dupA = Some ''h1''" "hash dupA2 = Some ''h1''" "hash plainB = None"
    by (simp_all add: sample_defs)
  have "{k. k \<noteq> [] \<and> 2 \<le> length (filter (\<lambda>f. hash f = Some k) ?files)} = {''h1''}"
    using h by auto
  then have c: "card {k. k \<noteq> [] \<and> 2 \<le> length (filter (\<lambda>f. hash f = Some k) ?files)} \<le> 10"
    by simp
  have a: "assignedCategory sampleEnv shippedConfig dupA = DOCUMENTS"
    "assignedCategory sampleEnv shippedConfig dupA2 = DOCUMENTS"
    by code_simp+
  from classifyFiles_returns [OF shipped_has_other, of ?files sampleEnv] samples_plain
  obtain r where r: "classifyFiles sampleEnv (Some shippedConfig) ?files = Inr r"
    by auto
  note t = duplicate_groups_share_a_hash [OF r shipped_no_proto]
  from t [THEN conjunct2, THEN conjunct2, THEN conjunct2, THEN conjunct2, rule_format, of 0 2 "''h1''"] c h a
  have "filter (\<lambda>g. dupA\<lparr>category := Some DOCUMENTS\<rparr> \<in> set g \<and> dupA2\<lparr>category := Some DOCUMENTS\<rparr> \<in> set g)
             (duplicateFiles (statistics r))
           = [filter (\<lambda>f. hash f = Some ''h1'') (getAllFiles (categories r))]"
    by simp
  moreover from t have "list_all (\<lambda>g. 2 \<le> length g) (duplicateFiles (statistics r))"
    by (simp add: list_all_iff)
  ultimately have "\<exists>r. classifyFiles sampleEnv (Some shippedConfig) [dupA, plainB, dupA2] = Inr r
         \<and> filter (\<lambda>g. dupA\<lparr>category := Some DOCUMENTS\<rparr> \<in> set g \<and> dupA2\<lparr>category := Some DOCUMENTS\<rparr> \<in> set g)
             (duplicateFiles (statistics r))
           = [filter (\<lambda>f. hash f = Some ''h1'') (getAllFiles (categories r))]
         \<and> list_all (\<lambda>g. 2 \<le> length g) (duplicateFiles (statistics r))"
    using r by (intro exI [of _ r] conjI)
  then show ?thesis by (intro conjI shipped_no_proto h(1) h(2) c a)
qed

section \<open>The top ten lists\<close>













end
